theory Spec2Isabelle
  imports Main
begin

section \<open>GRUB configuration scanning (localboot/grub.go)\<close>

text \<open>
  A shallow embedding of \<^verbatim>\<open>src/localboot/grub.go\<close>: the line scanner
  \<^verbatim>\<open>ParseGrubCfg\<close>, its helper \<^verbatim>\<open>unquote\<close> and the file prober
  \<^verbatim>\<open>ScanGrubConfigs\<close>. A Go string is a sequence of bytes, modelled as
  \<^typ>\<open>string\<close> (a list of 8-bit characters).
\<close>

subsection \<open>The Go standard library functions the code calls\<close>

text \<open>
  \<^verbatim>\<open>strings.Split(s, sep)\<close> for a non-empty separator: the pieces of \<open>s\<close> between the
  non-overlapping occurrences of \<open>sep\<close>, found from left to right; always at least one piece.
\<close>

function Split :: "string \<Rightarrow> string \<Rightarrow> string list" where
  "Split s sep =
     (if s = [] then [[]]
      else if sep \<noteq> [] \<and> take (length sep) s = sep
        then [] # Split (drop (length sep) s) sep
      else (case Split (tl s) sep of
              [] \<Rightarrow> [[hd s]]
            | p # ps \<Rightarrow> (hd s # p) # ps))"
  by pat_completeness auto
termination
  by (relation "measure (\<lambda>(s, sep). length s)") auto

text \<open>
  \<^verbatim>\<open>strings.TrimLeft(s, cutset)\<close>: \<open>s\<close> without its leading characters that occur in
  \<open>cutset\<close> (the code's cutset is one ASCII space).
\<close>

definition TrimLeft :: "string \<Rightarrow> string \<Rightarrow> string" where
  "TrimLeft s cutset = dropWhile (\<lambda>c. c \<in> set cutset) s"

text \<open>
  \<^verbatim>\<open>unicode.IsSpace\<close>, read on the UTF-8 bytes. \<open>whiteSpace\<close> lists the encodings of the
  white-space code points: U+0009..U+000D, U+0020, U+0085, U+00A0, U+1680, U+2000..U+200A,
  U+2028, U+2029, U+202F, U+205F and U+3000. \<open>spaceWidth s\<close> is the number of bytes of the
  white-space code point that \<open>s\<close> starts with, and 0 when it starts with none. Each
  encoding begins with an ASCII byte or a UTF-8 lead byte, and Go's decoder starts a code
  point at every such byte (an invalid byte is a code point of width one, which is no white
  space), so the encodings found by scanning the bytes are the white-space code points that
  Go decodes.
\<close>

definition whiteSpace :: "string list" where
  "whiteSpace =
     [[CHR 0x09], [CHR 0x0A], [CHR 0x0B], [CHR 0x0C], [CHR 0x0D], [CHR 0x20],
      [CHR 0xC2, CHR 0x85], [CHR 0xC2, CHR 0xA0],
      [CHR 0xE1, CHR 0x9A, CHR 0x80],
      [CHR 0xE2, CHR 0x80, CHR 0x80], [CHR 0xE2, CHR 0x80, CHR 0x81],
      [CHR 0xE2, CHR 0x80, CHR 0x82], [CHR 0xE2, CHR 0x80, CHR 0x83],
      [CHR 0xE2, CHR 0x80, CHR 0x84], [CHR 0xE2, CHR 0x80, CHR 0x85],
      [CHR 0xE2, CHR 0x80, CHR 0x86], [CHR 0xE2, CHR 0x80, CHR 0x87],
      [CHR 0xE2, CHR 0x80, CHR 0x88], [CHR 0xE2, CHR 0x80, CHR 0x89],
      [CHR 0xE2, CHR 0x80, CHR 0x8A],
      [CHR 0xE2, CHR 0x80, CHR 0xA8], [CHR 0xE2, CHR 0x80, CHR 0xA9],
      [CHR 0xE2, CHR 0x80, CHR 0xAF],
      [CHR 0xE2, CHR 0x81, CHR 0x9F],
      [CHR 0xE3, CHR 0x80, CHR 0x80]]"

definition spaceWidth :: "string \<Rightarrow> nat" where
  "spaceWidth s =
     (case find (\<lambda>r. take (length r) s = r) whiteSpace of
        None \<Rightarrow> 0
      | Some r \<Rightarrow> length r)"

text \<open>
  \<^verbatim>\<open>strings.Fields(s)\<close>: the maximal runs of \<open>s\<close> without white space, in order; empty
  when \<open>s\<close> is all white space. \<open>cur\<close> is the field being read.
\<close>

function fieldsFrom :: "string \<Rightarrow> string \<Rightarrow> string list" where
  "fieldsFrom cur s =
     (if s = [] then (if cur = [] then [] else [cur])
      else if spaceWidth s = 0 then fieldsFrom (cur @ [hd s]) (tl s)
      else (if cur = [] then [] else [cur]) @ fieldsFrom [] (drop (spaceWidth s) s))"
  by pat_completeness auto
termination
  by (relation "measure (\<lambda>(cur, s). length s)") auto

definition Fields :: "string \<Rightarrow> string list" where
  "Fields s = fieldsFrom [] s"

text \<open>\<^verbatim>\<open>strings.Join(elems, sep)\<close>: the elements with \<open>sep\<close> between neighbours.\<close>

fun Join :: "string list \<Rightarrow> string \<Rightarrow> string" where
  "Join [] sep = []"
| "Join [e] sep = e"
| "Join (e # f # es) sep = e @ sep @ Join (f # es) sep"

text \<open>
  \<^verbatim>\<open>strings.Replace(s, old, new, -1)\<close> for a non-empty \<open>old\<close> (the code's is the two
  characters backslash, dollar): every non-overlapping occurrence of \<open>old\<close>, found from left
  to right, becomes \<open>new\<close>. With an empty \<open>old\<close> Go inserts \<open>new\<close> around every code point;
  the code never asks for that and the model leaves \<open>s\<close> as it is.
\<close>

function Replace :: "string \<Rightarrow> string \<Rightarrow> string \<Rightarrow> string" where
  "Replace s old new =
     (if s = [] then []
      else if old \<noteq> [] \<and> take (length old) s = old
        then new @ Replace (drop (length old) s) old new
      else hd s # Replace (tl s) old new)"
  by pat_completeness auto
termination
  by (relation "measure (\<lambda>(s, old, new). length s)") auto

text \<open>
  \<^verbatim>\<open>path.Clean\<close>. The loop reads the path from the left; \<open>out\<close> is the buffer written so
  far (Go's \<^verbatim>\<open>lazybuf\<close> up to \<^verbatim>\<open>out.w\<close>) and \<open>dotdot\<close> the index in it where \<^verbatim>\<open>..\<close> must
  stop. \<open>backtrack\<close> is the inner loop that removes the last element of the buffer.
\<close>

fun backtrack :: "string \<Rightarrow> nat \<Rightarrow> nat \<Rightarrow> nat" where
  "backtrack out dotdot w =
     (if w > dotdot \<and> out ! w \<noteq> CHR ''/'' then backtrack out dotdot (w - 1) else w)"

function cleanLoop :: "bool \<Rightarrow> string \<Rightarrow> string \<Rightarrow> nat \<Rightarrow> string" where
  "cleanLoop rooted p out dotdot =
     (if p = [] then out
      else if hd p = CHR ''/'' then cleanLoop rooted (tl p) out dotdot
      else if hd p = CHR ''.'' \<and> (tl p = [] \<or> hd (tl p) = CHR ''/'')
        then cleanLoop rooted (tl p) out dotdot
      else if hd p = CHR ''.'' \<and> hd (tl p) = CHR ''.''
              \<and> (tl (tl p) = [] \<or> hd (tl (tl p)) = CHR ''/'')
        then (if length out > dotdot
                then cleanLoop rooted (tl (tl p))
                       (take (backtrack out dotdot (length out - 1)) out) dotdot
              else if \<not> rooted
                then (let out' = (if length out > 0 then out @ ''/'' else out) @ ''..''
                      in cleanLoop rooted (tl (tl p)) out' (length out'))
              else cleanLoop rooted (tl (tl p)) out dotdot)
      else (let out' = (if rooted \<and> length out \<noteq> 1 \<or> \<not> rooted \<and> length out \<noteq> 0
                         then out @ ''/'' else out)
            in cleanLoop rooted (dropWhile (\<lambda>c. c \<noteq> CHR ''/'') p)
                 (out' @ takeWhile (\<lambda>c. c \<noteq> CHR ''/'') p) dotdot))"
  by pat_completeness auto
termination
proof (relation "measure (\<lambda>(rooted, p, out, dotdot). length p)", goal_cases)
  have t1: "length (tl p) < length p" if "p \<noteq> []" for p :: string
    using that by (cases p) simp_all
  have t2: "length (tl (tl p)) < length p" if "p \<noteq> []" for p :: string
    using that by (cases p) (simp_all add: less_Suc_eq_le)
  have t3: "length (dropWhile (\<lambda>c. c \<noteq> CHR ''/'') p) < length p"
    if "p \<noteq> []" "hd p \<noteq> CHR ''/''" for p :: string
    using that by (cases p) (simp_all add: less_Suc_eq_le length_dropWhile_le)
  {
    case 1
    show ?case by (rule wf_measure)
  next
    case 2
    then show ?case by (simp only: in_measure prod.case) (erule t1)
  next
    case 3
    then show ?case by (simp only: in_measure prod.case) (erule t1)
  next
    case 4
    then show ?case by (simp only: in_measure prod.case) (erule t2)
  next
    case 5
    then show ?case by (simp only: in_measure prod.case) (erule t2)
  next
    case 6
    then show ?case by (simp only: in_measure prod.case) (erule t2)
  next
    case 7
    then show ?case by (simp only: in_measure prod.case) (erule t3, assumption)
  }
qed

definition Clean :: "string \<Rightarrow> string" where
  "Clean p =
     (if p = [] then ''.''
      else (let rooted = (hd p = CHR ''/'');
                out = (if rooted then cleanLoop rooted (tl p) ''/'' 1
                       else cleanLoop rooted p [] 0)
            in if length out = 0 then ''.'' else out))"

text \<open>
  \<^verbatim>\<open>path.Join(elem...)\<close>: the elements from the first non-empty one on, joined with
  slashes and cleaned; the empty string when every element is empty.
\<close>

definition path_Join :: "string list \<Rightarrow> string" where
  "path_Join elem =
     (case dropWhile (\<lambda>e. e = []) elem of
        [] \<Rightarrow> []
      | e # es \<Rightarrow> Clean (Join (e # es) ''/''))"

subsection \<open>Boot configurations\<close>

text \<open>
  Modelled from the spec: the type \<^verbatim>\<open>bootconfig.BootConfig\<close> is declared in the package
  \<^verbatim>\<open>pkg/bootconfig\<close>, which is not among the sources; the record has the seven fields of
  the spec's data model, which are the fields the parser writes. \<open>new_BootConfig\<close> is the
  zero value that \<^verbatim>\<open>new(bootconfig.BootConfig)\<close> allocates. The method \<^verbatim>\<open>IsValid\<close> of that
  package is a parameter \<open>isValid\<close> of the functions below.
\<close>

record BootConfig =
  Name :: string
  Kernel :: string
  Initramfs :: string
  KernelArgs :: string
  Multiboot :: string
  MultibootArgs :: string
  Modules :: "string list"

definition new_BootConfig :: BootConfig where
  "new_BootConfig =
     \<lparr>Name = [], Kernel = [], Initramfs = [], KernelArgs = [], Multiboot = [],
      MultibootArgs = [], Modules = []\<rparr>"

text \<open>
  Modelled from the spec: the validity predicate of \<^verbatim>\<open>pkg/bootconfig\<close> as the spec words
  it, "validity requires at least one of a kernel path or equivalent boot target to be
  set". It instantiates the parameter \<open>isValid\<close> on concrete inputs.
\<close>

definition IsValid :: "BootConfig \<Rightarrow> bool" where
  "IsValid bc = (Kernel bc \<noteq> [] \<or> Multiboot bc \<noteq> [])"

subsection \<open>Versions, diagnostics and panics\<close>

text \<open>
  \<^verbatim>\<open>grubVersion\<close> is a Go \<^verbatim>\<open>int\<close>; the code only compares it with the two constants, so
  an unbounded integer stands for it.
\<close>

type_synonym grubVersion = int

definition grubV1 :: grubVersion where
  "grubV1 = 1"

definition grubV2 :: grubVersion where
  "grubV2 = 2"

text \<open>
  What the code writes to the log, as a trace of events.

  Modelled from the spec: the measurement hook \<^verbatim>\<open>crypto.TryMeasureData\<close> of the package
  \<^verbatim>\<open>pkg/crypto\<close>, which is not among the sources. The spec has it observe the bytes read and
  their path, with nothing returned to the scanner; the call
  \<^verbatim>\<open>crypto.TryMeasureData(crypto.ConfigData, data, path)\<close> is the event
  \<open>MeasureConfigData data path\<close> of the trace.
\<close>

datatype event =
    InvalidGrubVersion grubVersion
  | TryingToRead string
  | CannotOpen string
  | MeasureConfigData string string

text \<open>The one run-time panic the parser's loop could raise: a field access through a nil \<^verbatim>\<open>cfg\<close>.\<close>

datatype panic = NilPointerDereference

subsection \<open>unquote\<close>

definition unquote :: "grubVersion \<Rightarrow> string \<Rightarrow> string" where
  "unquote ver text =
     (if ver = grubV2 then Replace text [CHR 0x5C, CHR ''$''] ''$''
      else text)"

subsection \<open>ParseGrubCfg\<close>

text \<open>The variables of the loop: the output so far, the flag and the entry being filled.\<close>

record parser_state =
  bootconfigs :: "BootConfig list"
  inMenuEntry :: bool
  cfg :: "BootConfig option"

text \<open>An assignment to fields of \<^verbatim>\<open>*cfg\<close>; it panics when \<^verbatim>\<open>cfg\<close> is nil.\<close>

definition assign :: "parser_state \<Rightarrow> (BootConfig \<Rightarrow> BootConfig) \<Rightarrow> panic + parser_state" where
  "assign st f =
     (case cfg st of
        None \<Rightarrow> Inl NilPointerDereference
      | Some c \<Rightarrow> Inr (st\<lparr>cfg := Some (f c)\<rparr>))"

text \<open>The body of the loop, for one line of the file.\<close>

definition parse_line ::
  "(BootConfig \<Rightarrow> bool) \<Rightarrow> grubVersion \<Rightarrow> string \<Rightarrow> parser_state \<Rightarrow> string \<Rightarrow> panic + parser_state"
where
  "parse_line isValid ver basedir st line0 =
     (let line = TrimLeft line0 '' '';
          sline = Fields line
      in if length sline = 0 then Inr st
      else if sline ! 0 = ''menuentry'' then
        Inr \<lparr>bootconfigs =
               (case cfg st of
                  None \<Rightarrow> bootconfigs st
                | Some c \<Rightarrow> if isValid c then bootconfigs st @ [c] else bootconfigs st),
             inMenuEntry = True,
             cfg = Some (new_BootConfig\<lparr>Name := Join (drop 1 sline) '' ''\<rparr>)\<rparr>
      else if inMenuEntry st then
        (if length sline < 2 then Inr st
         else if sline ! 0 = ''linux'' \<or> sline ! 0 = ''linux16'' \<or> sline ! 0 = ''linuxefi'' then
           (let kernel = sline ! 1;
                cmdline = unquote ver (Join (drop 2 sline) '' '')
            in assign st (\<lambda>c. c\<lparr>Kernel := path_Join [basedir, kernel], KernelArgs := cmdline\<rparr>))
         else if sline ! 0 = ''initrd'' \<or> sline ! 0 = ''initrd16'' \<or> sline ! 0 = ''initrdefi'' then
           (let initrd = sline ! 1
            in assign st (\<lambda>c. c\<lparr>Initramfs := path_Join [basedir, initrd]\<rparr>))
         else if sline ! 0 = ''multiboot'' then
           (let multiboot = sline ! 1;
                cmdline = unquote ver (Join (drop 2 sline) '' '')
            in assign st (\<lambda>c. c\<lparr>Multiboot := path_Join [basedir, multiboot],
                                   MultibootArgs := cmdline\<rparr>))
         else if sline ! 0 = ''module'' then
           (let cmdline0 = Join (drop 2 sline) '' '';
                cmdline = (if ver = grubV2 then Replace cmdline0 [CHR 0x5C, CHR ''$''] ''$''
                           else cmdline0);
                module0 = path_Join [basedir, sline ! 1];
                module = (if cmdline \<noteq> [] then module0 @ '' '' @ cmdline else module0)
            in assign st (\<lambda>c. c\<lparr>Modules := Modules c @ [module]\<rparr>))
         else Inr st)
      else Inr st)"

text \<open>The loop over the lines; a panic ends it.\<close>

fun parse_lines ::
  "(BootConfig \<Rightarrow> bool) \<Rightarrow> grubVersion \<Rightarrow> string \<Rightarrow> parser_state \<Rightarrow> string list \<Rightarrow> panic + parser_state"
where
  "parse_lines isValid ver basedir st [] = Inr st"
| "parse_lines isValid ver basedir st (l # ls) =
     (case parse_line isValid ver basedir st l of
        Inl e \<Rightarrow> Inl e
      | Inr st' \<Rightarrow> parse_lines isValid ver basedir st' ls)"

text \<open>After the loop: the last entry is appended when it is valid.\<close>

definition finish :: "(BootConfig \<Rightarrow> bool) \<Rightarrow> parser_state \<Rightarrow> panic + BootConfig list" where
  "finish isValid st =
     (if inMenuEntry st then
        (case cfg st of
           None \<Rightarrow> Inl NilPointerDereference
         | Some c \<Rightarrow> if isValid c then Inr (bootconfigs st @ [c]) else Inr (bootconfigs st))
      else Inr (bootconfigs st))"

definition initial_state :: parser_state where
  "initial_state = \<lparr>bootconfigs = [], inMenuEntry = False, cfg = None\<rparr>"

text \<open>The loop and the final append, on the lines of a file.\<close>

definition parse_cfg_lines ::
  "(BootConfig \<Rightarrow> bool) \<Rightarrow> grubVersion \<Rightarrow> string \<Rightarrow> string list \<Rightarrow> panic + BootConfig list"
where
  "parse_cfg_lines isValid ver basedir ls =
     (case parse_lines isValid ver basedir initial_state ls of
        Inl e \<Rightarrow> Inl e
      | Inr st \<Rightarrow> finish isValid st)"

text \<open>
  \<^verbatim>\<open>ParseGrubCfg\<close>: a panic, or the events logged and the slice returned (Go's nil slice,
  returned for an invalid version, is the empty list).
\<close>

definition ParseGrubCfg ::
  "(BootConfig \<Rightarrow> bool) \<Rightarrow> grubVersion \<Rightarrow> string \<Rightarrow> string \<Rightarrow> panic + (event list \<times> BootConfig list)"
where
  "ParseGrubCfg isValid ver grubcfg basedir =
     (if ver \<noteq> grubV1 \<and> ver \<noteq> grubV2 then Inr ([InvalidGrubVersion ver], [])
      else (case parse_cfg_lines isValid ver basedir (Split grubcfg ''\<newline>'') of
              Inl e \<Rightarrow> Inl e
            | Inr bcs \<Rightarrow> Inr ([], bcs)))"

subsection \<open>ScanGrubConfigs\<close>

definition Grub2Paths :: "string list" where
  "Grub2Paths = [''boot/grub2/grub.cfg'', ''boot/grub2.cfg'', ''grub2/grub.cfg'', ''grub2.cfg'']"

definition GrubLegacyPaths :: "string list" where
  "GrubLegacyPaths = [''boot/grub/grub.cfg'', ''boot/grub.cfg'', ''grub/grub.cfg'', ''grub.cfg'']"

text \<open>
  The two loops of \<^verbatim>\<open>ScanGrubConfigs\<close> have the same body, run on a list of paths with a
  version. \<open>readFile\<close> is the file system as \<^verbatim>\<open>ioutil.ReadFile\<close> sees it (\<open>None\<close> when the
  read fails); the accumulator is the trace so far and \<^verbatim>\<open>bootconfigs\<close>.
\<close>

fun scan_paths ::
  "(BootConfig \<Rightarrow> bool) \<Rightarrow> (string \<Rightarrow> string option) \<Rightarrow> grubVersion \<Rightarrow> string \<Rightarrow>
   event list \<times> BootConfig list \<Rightarrow> string list \<Rightarrow> panic + (event list \<times> BootConfig list)"
where
  "scan_paths isValid readFile ver basedir acc [] = Inr acc"
| "scan_paths isValid readFile ver basedir acc (grubpath # rest) =
     (let path = path_Join [basedir, grubpath];
          trace = fst acc @ [TryingToRead path]
      in case readFile path of
           None \<Rightarrow> scan_paths isValid readFile ver basedir (trace @ [CannotOpen path], snd acc) rest
         | Some grubcfg \<Rightarrow>
             (case ParseGrubCfg isValid ver grubcfg basedir of
                Inl e \<Rightarrow> Inl e
              | Inr (evs, cfgs) \<Rightarrow>
                  scan_paths isValid readFile ver basedir
                    (trace @ [MeasureConfigData grubcfg path] @ evs, snd acc @ cfgs) rest))"

definition ScanGrubConfigs ::
  "(BootConfig \<Rightarrow> bool) \<Rightarrow> (string \<Rightarrow> string option) \<Rightarrow> string \<Rightarrow> panic + (event list \<times> BootConfig list)"
where
  "ScanGrubConfigs isValid readFile basedir =
     (case scan_paths isValid readFile grubV2 basedir ([], []) Grub2Paths of
        Inl e \<Rightarrow> Inl e
      | Inr acc \<Rightarrow> scan_paths isValid readFile grubV1 basedir acc GrubLegacyPaths)"

subsection \<open>Notions for the statements\<close>

text \<open>
  The tokens of a line as the loop sees them, the kinds of line it tells apart, and the
  loop read as a total function on the states in which the flag and the entry agree.
  \<open>directive\<close> is what a line does to the entry being filled, taken from \<open>parse_line\<close>
  itself; a block is a \<^verbatim>\<open>menuentry\<close> line with the lines up to the next one.
\<close>

definition tokens :: "string \<Rightarrow> string list" where
  "tokens l = Fields (TrimLeft l '' '')"

definition is_menuentry :: "string \<Rightarrow> bool" where
  "is_menuentry l = (tokens l \<noteq> [] \<and> hd (tokens l) = ''menuentry'')"

definition wf_state :: "parser_state \<Rightarrow> bool" where
  "wf_state st = (inMenuEntry st = (cfg st \<noteq> None))"

definition step :: "(BootConfig \<Rightarrow> bool) \<Rightarrow> grubVersion \<Rightarrow> string \<Rightarrow> parser_state \<Rightarrow> string \<Rightarrow> parser_state" where
  "step isValid ver basedir st l =
     (case parse_line isValid ver basedir st l of Inl e \<Rightarrow> st | Inr st' \<Rightarrow> st')"

definition pending :: "(BootConfig \<Rightarrow> bool) \<Rightarrow> parser_state \<Rightarrow> BootConfig list" where
  "pending isValid st =
     bootconfigs st @ (case cfg st of None \<Rightarrow> [] | Some c \<Rightarrow> if isValid c then [c] else [])"

definition new_entry :: "string \<Rightarrow> BootConfig" where
  "new_entry l = new_BootConfig\<lparr>Name := Join (drop 1 (tokens l)) '' ''\<rparr>"

definition directive :: "grubVersion \<Rightarrow> string \<Rightarrow> string \<Rightarrow> BootConfig \<Rightarrow> BootConfig" where
  "directive ver basedir l c =
     (case parse_line (\<lambda>_. True) ver basedir \<lparr>bootconfigs = [], inMenuEntry = True, cfg = Some c\<rparr> l of
        Inl e \<Rightarrow> c
      | Inr st \<Rightarrow> (case cfg st of None \<Rightarrow> c | Some c' \<Rightarrow> c'))"

definition fill :: "grubVersion \<Rightarrow> string \<Rightarrow> BootConfig \<Rightarrow> string list \<Rightarrow> BootConfig" where
  "fill ver basedir c ls = foldl (\<lambda>c l. directive ver basedir l c) c ls"

definition is_linux :: "string \<Rightarrow> bool" where
  "is_linux l =
     (2 \<le> length (tokens l) \<and>
      (hd (tokens l) = ''linux'' \<or> hd (tokens l) = ''linux16'' \<or> hd (tokens l) = ''linuxefi''))"

definition is_initrd :: "string \<Rightarrow> bool" where
  "is_initrd l =
     (2 \<le> length (tokens l) \<and>
      (hd (tokens l) = ''initrd'' \<or> hd (tokens l) = ''initrd16'' \<or> hd (tokens l) = ''initrdefi''))"

definition is_multiboot :: "string \<Rightarrow> bool" where
  "is_multiboot l = (2 \<le> length (tokens l) \<and> hd (tokens l) = ''multiboot'')"

definition is_module :: "string \<Rightarrow> bool" where
  "is_module l = (2 \<le> length (tokens l) \<and> hd (tokens l) = ''module'')"

definition entry_of :: "grubVersion \<Rightarrow> string \<Rightarrow> string list \<Rightarrow> BootConfig" where
  "entry_of ver basedir block = fill ver basedir (new_entry (hd block)) (tl block)"

definition is_block :: "string list \<Rightarrow> bool" where
  "is_block block =
     (block \<noteq> [] \<and> is_menuentry (hd block) \<and> list_all (\<lambda>l. \<not> is_menuentry l) (tl block))"

definition newline_free :: "string list \<Rightarrow> bool" where
  "newline_free ls = list_all (\<lambda>l. CHR 0x0A \<notin> set l) ls"

definition entries :: "panic + (event list \<times> BootConfig list) \<Rightarrow> BootConfig list" where
  "entries r = (case r of Inl e \<Rightarrow> [] | Inr (evs, bcs) \<Rightarrow> bcs)"

text \<open>The example of a menu entry with a kernel and an initial ramdisk.\<close>

definition c1_text :: string where
  "c1_text =
     ''menuentry '' @ [CHR 0x22, CHR ''X'', CHR 0x22] @ ''\<newline>'' @
     ''linux /vmlinuz root=/dev/sda1'' @ ''\<newline>'' @
     ''initrd /initrd.img''"

definition c1_entry :: BootConfig where
  "c1_entry =
     \<lparr>Name = [CHR 0x22, CHR ''X'', CHR 0x22], Kernel = ''/mnt/vmlinuz'',
      Initramfs = ''/mnt/initrd.img'', KernelArgs = ''root=/dev/sda1'', Multiboot = [],
      MultibootArgs = [], Modules = []\<rparr>"

text \<open>A file of three entries, of which only the second names a kernel.\<close>

definition c2_text :: string where
  "c2_text = ''menuentry A\<newline>echo hello\<newline>menuentry B\<newline>linux /k\<newline>menuentry C''"

text \<open>The states of two runs that differ only in the validity predicate.\<close>

definition agree :: "(BootConfig \<Rightarrow> bool) \<Rightarrow> parser_state \<Rightarrow> parser_state \<Rightarrow> bool" where
  "agree isValid st st' =
     (bootconfigs st = filter isValid (bootconfigs st') \<and> inMenuEntry st = inMenuEntry st'
      \<and> cfg st = cfg st')"

text \<open>The escape that \<open>unquote\<close> knows, and the strings in which it occurs.\<close>

definition escaped_dollar :: string where
  "escaped_dollar = [CHR 0x5C, CHR ''$'']"

fun has_escape :: "string \<Rightarrow> bool" where
  "has_escape [] = False"
| "has_escape [c] = False"
| "has_escape (c # d # s) = ((c = CHR 0x5C \<and> d = CHR ''$'') \<or> has_escape (d # s))"

text \<open>The string that a \<^verbatim>\<open>module\<close> line appends, and the example of two such lines.\<close>

definition module_string :: "grubVersion \<Rightarrow> string \<Rightarrow> string \<Rightarrow> string" where
  "module_string ver basedir l =
     path_Join [basedir, tokens l ! 1] @
     (if unquote ver (Join (drop 2 (tokens l)) '' '') \<noteq> []
      then '' '' @ unquote ver (Join (drop 2 (tokens l)) '' '') else [])"

definition c4_text :: string where
  "c4_text = ''menuentry X\<newline>linux /vmlinuz\<newline>module /a.ko arg1\<newline>module /b.ko''"

text \<open>An entry with two kernel lines and two ramdisk lines.\<close>

definition c9_text :: string where
  "c9_text = ''menuentry X\<newline>linux /a x y\<newline>initrd /i1\<newline>linux16 /b\<newline>initrdefi /i2''"

text \<open>
  A string of white-space code points only (the empty string is one), and the width that
  the first byte of a white-space encoding announces.
\<close>

function white :: "string \<Rightarrow> bool" where
  "white s =
     (if s = [] then True
      else if spaceWidth s = 0 then False
      else white (drop (spaceWidth s) s))"
  by pat_completeness auto
termination
  by (relation "measure length") auto

definition leadWidth :: "char \<Rightarrow> nat" where
  "leadWidth c =
     (if c = CHR 0xC2 then 2 else if c = CHR 0xE1 \<or> c = CHR 0xE2 \<or> c = CHR 0xE3 then 3 else 1)"

text \<open>Spaces, a tab, line ends with and without a carriage return, and a no-break space.\<close>

definition c10_text :: string where
  "c10_text = [CHR 0x20, CHR 0x09, CHR 0x0A, CHR 0x0D, CHR 0x0A, CHR 0xC2, CHR 0xA0, CHR 0x20, CHR 0x0A]"

text \<open>
  The first tokens that the loop knows, the lines it passes over wherever they stand (blank
  ones and ones that start with another token), and a file of two entries among such lines.
\<close>

definition directive_names :: "string list" where
  "directive_names =
     [''menuentry'', ''linux'', ''linux16'', ''linuxefi'', ''initrd'', ''initrd16'', ''initrdefi'',
      ''multiboot'', ''module'']"

definition ignored :: "string \<Rightarrow> bool" where
  "ignored l = (white l \<or> tokens l = [] \<or> hd (tokens l) \<notin> set directive_names)"

definition c8_pre :: "string list" where
  "c8_pre = [''# a comment'', ''set timeout=5'', ''linux /outside'']"

definition c8_blocks :: "string list list" where
  "c8_blocks =
     [[''menuentry A {'', [], ''  linux /a quiet'', ''}''],
      [''menuentry B {'', ''  set root=(hd0,1)'', ''  linux /b'', [CHR 0x09], ''}'']]"

text \<open>
  What one candidate path adds to the trace and to the result, the paths that a trace
  shows as tried, and two file systems: one with a legacy file only, one whose only file
  holds an entry without a kernel.
\<close>

definition candidate_events :: "(string \<Rightarrow> string option) \<Rightarrow> string \<Rightarrow> string \<Rightarrow> event list" where
  "candidate_events readFile basedir grubpath =
     (let path = path_Join [basedir, grubpath]
      in TryingToRead path #
         (case readFile path of
            None \<Rightarrow> [CannotOpen path]
          | Some grubcfg \<Rightarrow> [MeasureConfigData grubcfg path]))"

definition candidate_configs ::
  "(BootConfig \<Rightarrow> bool) \<Rightarrow> (string \<Rightarrow> string option) \<Rightarrow> grubVersion \<Rightarrow> string \<Rightarrow> string \<Rightarrow> BootConfig list"
where
  "candidate_configs isValid readFile ver basedir grubpath =
     (case readFile (path_Join [basedir, grubpath]) of
        None \<Rightarrow> []
      | Some grubcfg \<Rightarrow> entries (ParseGrubCfg isValid ver grubcfg basedir))"

fun attempts :: "event list \<Rightarrow> string list" where
  "attempts [] = []"
| "attempts (TryingToRead path # evs) = path # attempts evs"
| "attempts (ev # evs) = attempts evs"

definition only_legacy :: "string \<Rightarrow> string option" where
  "only_legacy path =
     (if path = ''/mnt/grub/grub.cfg'' then Some ''menuentry A\<newline>linux /a\<newline>menuentry B\<newline>linux /b''
      else None)"

definition only_header :: "string \<Rightarrow> string option" where
  "only_header path = (if path = ''/mnt/boot/grub2/grub.cfg'' then Some ''menuentry A\<newline>echo x'' else None)"

section \<open>Properties\<close>

subsection \<open>The loop as a fold\<close>

lemma assign_Some: "cfg st = Some c \<Longrightarrow> assign st f = Inr (st\<lparr>cfg := Some (f c)\<rparr>)"
  by (simp add: assign_def)

lemma parse_line_wf:
  assumes "wf_state st"
  shows "parse_line isValid ver basedir st l = Inr (step isValid ver basedir st l)
         \<and> wf_state (step isValid ver basedir st l)"
proof (cases "cfg st")
  case None
  with assms have "\<not> inMenuEntry st" by (simp add: wf_state_def)
  with None show ?thesis
    by (simp add: parse_line_def step_def wf_state_def Let_def)
next
  case (Some c)
  with assms have "inMenuEntry st" by (simp add: wf_state_def)
  with Some show ?thesis
    by (simp add: parse_line_def step_def wf_state_def Let_def assign_Some)
qed

lemma parse_lines_wf:
  "wf_state st \<Longrightarrow>
   parse_lines isValid ver basedir st ls = Inr (foldl (step isValid ver basedir) st ls)
   \<and> wf_state (foldl (step isValid ver basedir) st ls)"
  by (induction ls arbitrary: st) (simp_all add: parse_line_wf)

lemma finish_wf: "wf_state st \<Longrightarrow> finish isValid st = Inr (pending isValid st)"
  by (auto simp: finish_def pending_def wf_state_def split: option.splits)

lemma wf_initial: "wf_state initial_state"
  by (simp add: wf_state_def initial_state_def)

lemma parse_cfg_lines_eq:
  "parse_cfg_lines isValid ver basedir ls =
   Inr (pending isValid (foldl (step isValid ver basedir) initial_state ls))"
  using parse_lines_wf [OF wf_initial, of isValid ver basedir ls]
  by (simp add: parse_cfg_lines_def finish_wf)

lemma step_blank: "tokens l = [] \<Longrightarrow> step isValid ver basedir st l = st"
  by (simp add: step_def parse_line_def tokens_def)

lemma parse_line_outside:
  "\<not> inMenuEntry st \<Longrightarrow> \<not> is_menuentry l \<Longrightarrow> parse_line isValid ver basedir st l = Inr st"
  unfolding parse_line_def Let_def tokens_def [symmetric]
  by (cases "tokens l") (simp_all add: is_menuentry_def)

lemma step_outside:
  "\<not> is_menuentry l \<Longrightarrow> \<not> inMenuEntry st \<Longrightarrow> step isValid ver basedir st l = st"
  by (simp add: step_def parse_line_outside)

lemma step_menuentry:
  "is_menuentry l \<Longrightarrow>
   step isValid ver basedir st l =
     \<lparr>bootconfigs = pending isValid st, inMenuEntry = True, cfg = Some (new_entry l)\<rparr>"
  unfolding step_def parse_line_def Let_def tokens_def [symmetric]
  by (cases "tokens l")
     (simp_all add: is_menuentry_def pending_def new_entry_def split: option.splits)

lemma step_inside:
  "\<not> is_menuentry l \<Longrightarrow> inMenuEntry st \<Longrightarrow> cfg st = Some c \<Longrightarrow>
   step isValid ver basedir st l = st\<lparr>cfg := Some (directive ver basedir l c)\<rparr>"
  unfolding step_def directive_def parse_line_def Let_def tokens_def [symmetric]
  by (cases "tokens l") (simp_all add: is_menuentry_def assign_def)

lemma two_tokens: "2 \<le> length ts \<Longrightarrow> \<exists>a b r. ts = a # b # r"
  by (cases ts; cases "tl ts") auto

lemma directive_linux:
  assumes "is_linux l"
  shows "directive ver basedir l c =
     c\<lparr>Kernel := path_Join [basedir, tokens l ! 1],
       KernelArgs := unquote ver (Join (drop 2 (tokens l)) '' '')\<rparr>"
proof -
  from assms obtain a b r where t: "tokens l = a # b # r"
    and a: "a = ''linux'' \<or> a = ''linux16'' \<or> a = ''linuxefi''"
    unfolding is_linux_def using two_tokens [of "tokens l"] by auto
  from a show ?thesis
    unfolding directive_def parse_line_def Let_def tokens_def [symmetric] t
    by (elim disjE) (simp_all add: assign_def)
qed

lemma directive_initrd:
  assumes "is_initrd l"
  shows "directive ver basedir l c = c\<lparr>Initramfs := path_Join [basedir, tokens l ! 1]\<rparr>"
proof -
  from assms obtain a b r where t: "tokens l = a # b # r"
    and a: "a = ''initrd'' \<or> a = ''initrd16'' \<or> a = ''initrdefi''"
    unfolding is_initrd_def using two_tokens [of "tokens l"] by auto
  from a show ?thesis
    unfolding directive_def parse_line_def Let_def tokens_def [symmetric] t
    by (elim disjE) (simp_all add: assign_def)
qed

lemma directive_multiboot:
  assumes "is_multiboot l"
  shows "directive ver basedir l c =
     c\<lparr>Multiboot := path_Join [basedir, tokens l ! 1],
       MultibootArgs := unquote ver (Join (drop 2 (tokens l)) '' '')\<rparr>"
proof -
  from assms obtain b r where t: "tokens l = ''multiboot'' # b # r"
    unfolding is_multiboot_def using two_tokens [of "tokens l"] by auto
  show ?thesis
    unfolding directive_def parse_line_def Let_def tokens_def [symmetric] t
    by (simp add: assign_def)
qed

lemma directive_module:
  assumes "is_module l"
  shows "directive ver basedir l c =
     c\<lparr>Modules := Modules c @
        [path_Join [basedir, tokens l ! 1] @
         (if unquote ver (Join (drop 2 (tokens l)) '' '') \<noteq> []
          then '' '' @ unquote ver (Join (drop 2 (tokens l)) '' '') else [])]\<rparr>"
proof -
  from assms obtain b r where t: "tokens l = ''module'' # b # r"
    unfolding is_module_def using two_tokens [of "tokens l"] by auto
  show ?thesis
    unfolding directive_def parse_line_def Let_def tokens_def [symmetric] t
    by (simp add: assign_def unquote_def)
qed

lemma directive_other:
  assumes "\<not> is_menuentry l" "\<not> is_linux l" "\<not> is_initrd l" "\<not> is_multiboot l" "\<not> is_module l"
  shows "directive ver basedir l c = c"
proof (cases "2 \<le> length (tokens l)")
  case False
  then show ?thesis
    unfolding directive_def parse_line_def Let_def tokens_def [symmetric]
    using assms(1) by (cases "tokens l") (simp_all add: is_menuentry_def not_le)
next
  case True
  then obtain a b r where t: "tokens l = a # b # r"
    using two_tokens by blast
  with assms have "a \<noteq> ''menuentry''" "a \<noteq> ''linux''" "a \<noteq> ''linux16''" "a \<noteq> ''linuxefi''"
    "a \<noteq> ''initrd''" "a \<noteq> ''initrd16''" "a \<noteq> ''initrdefi''" "a \<noteq> ''multiboot''" "a \<noteq> ''module''"
    by (simp_all add: is_menuentry_def is_linux_def is_initrd_def is_multiboot_def is_module_def)
  then show ?thesis
    unfolding directive_def parse_line_def Let_def tokens_def [symmetric] t
    by simp
qed

lemma foldl_step_outside:
  "\<not> inMenuEntry st \<Longrightarrow> list_all (\<lambda>l. \<not> is_menuentry l) ls \<Longrightarrow>
   foldl (step isValid ver basedir) st ls = st"
  by (induction ls) (simp_all add: step_outside)

lemma foldl_step_inside:
  "inMenuEntry st \<Longrightarrow> cfg st = Some c \<Longrightarrow> list_all (\<lambda>l. \<not> is_menuentry l) ls \<Longrightarrow>
   foldl (step isValid ver basedir) st ls = st\<lparr>cfg := Some (fill ver basedir c ls)\<rparr>"
proof (induction ls arbitrary: st c)
  case Nil
  then show ?case by (simp add: fill_def)
next
  case (Cons l ls)
  let ?st = "st\<lparr>cfg := Some (directive ver basedir l c)\<rparr>"
  from Cons.prems have "step isValid ver basedir st l = ?st"
    by (simp add: step_inside)
  moreover from Cons.prems
  have "foldl (step isValid ver basedir) ?st ls =
        ?st\<lparr>cfg := Some (fill ver basedir (directive ver basedir l c) ls)\<rparr>"
    by (intro Cons.IH) simp_all
  ultimately show ?case by (simp add: fill_def)
qed

lemma foldl_step_block:
  assumes "is_block b"
  shows "foldl (step isValid ver basedir) st b =
     \<lparr>bootconfigs = pending isValid st, inMenuEntry = True,
      cfg = Some (entry_of ver basedir b)\<rparr>"
proof -
  from assms obtain m rest where b: "b = m # rest" and m: "is_menuentry m"
    and rest: "list_all (\<lambda>l. \<not> is_menuentry l) rest"
    by (cases b) (auto simp: is_block_def)
  let ?st = "\<lparr>bootconfigs = pending isValid st, inMenuEntry = True, cfg = Some (new_entry m)\<rparr>"
  have "foldl (step isValid ver basedir) ?st rest = ?st\<lparr>cfg := Some (fill ver basedir (new_entry m) rest)\<rparr>"
    using rest by (intro foldl_step_inside) simp_all
  with m show ?thesis
    by (simp add: b step_menuentry entry_of_def)
qed

lemma pending_blocks:
  "list_all is_block blocks \<Longrightarrow>
   pending isValid (foldl (step isValid ver basedir) st (concat blocks)) =
   pending isValid st @ filter isValid (map (entry_of ver basedir) blocks)"
proof (induction blocks arbitrary: st)
  case Nil
  then show ?case by simp
next
  case (Cons b blocks)
  then show ?case
    by (simp add: foldl_step_block pending_def)
qed

lemma parse_cfg_lines_blocks:
  assumes "list_all (\<lambda>l. \<not> is_menuentry l) pre" and "list_all is_block blocks"
  shows "parse_cfg_lines isValid ver basedir (pre @ concat blocks) =
         Inr (filter isValid (map (entry_of ver basedir) blocks))"
proof -
  have "foldl (step isValid ver basedir) initial_state pre = initial_state"
    using assms(1) by (intro foldl_step_outside) (simp_all add: initial_state_def)
  then show ?thesis
    using pending_blocks [OF assms(2), of isValid ver basedir initial_state]
    by (simp add: parse_cfg_lines_eq) (simp add: pending_def initial_state_def)
qed

declare Split.simps [simp del]
declare fieldsFrom.simps [simp del]
declare Replace.simps [simp del]
declare cleanLoop.simps [simp del]
declare backtrack.simps [simp del]

lemma Split_Nil: "Split [] sep = [[]]"
  by (subst Split.simps) simp

lemma Split_Cons:
  "Split (c # s) [n] =
     (if c = n then [] # Split s [n]
      else (case Split s [n] of [] \<Rightarrow> [[c]] | p # ps \<Rightarrow> (c # p) # ps))"
  by (subst Split.simps) (simp split: list.splits)

lemma Split_last: "n \<notin> set l \<Longrightarrow> Split l [n] = [l]"
  by (induction l) (auto simp: Split_Nil Split_Cons)

lemma Split_line: "n \<notin> set l \<Longrightarrow> Split (l @ n # s) [n] = l # Split s [n]"
  by (induction l) (auto simp: Split_Cons)

lemma Split_Join:
  "ls \<noteq> [] \<Longrightarrow> list_all (\<lambda>l. n \<notin> set l) ls \<Longrightarrow> Split (Join ls [n]) [n] = ls"
proof (induction ls)
  case Nil
  then show ?case by simp
next
  case (Cons l ls)
  show ?case
  proof (cases ls)
    case Nil
    with Cons.prems show ?thesis by (simp add: Split_last)
  next
    case (Cons l' ls')
    with Cons.prems Cons.IH show ?thesis by (simp add: Split_line)
  qed
qed

lemma tokens_Nil: "tokens [] = []"
  by (simp add: tokens_def TrimLeft_def Fields_def fieldsFrom.simps)

lemma ParseGrubCfg_text:
  "ver = grubV1 \<or> ver = grubV2 \<Longrightarrow>
   ParseGrubCfg isValid ver grubcfg basedir =
   Inr ([], pending isValid (foldl (step isValid ver basedir) initial_state (Split grubcfg ''\<newline>'')))"
  by (auto simp: ParseGrubCfg_def parse_cfg_lines_eq)

lemma ParseGrubCfg_lines:
  assumes "ver = grubV1 \<or> ver = grubV2" and "newline_free ls"
  shows "ParseGrubCfg isValid ver (Join ls ''\<newline>'') basedir =
         Inr ([], pending isValid (foldl (step isValid ver basedir) initial_state ls))"
proof (cases ls)
  case Nil
  then show ?thesis
    by (simp add: ParseGrubCfg_text [OF assms(1)] Split_Nil step_blank tokens_Nil)
next
  case (Cons l ls')
  with assms(2) have "Split (Join ls ''\<newline>'') ''\<newline>'' = ls"
    by (intro Split_Join) (simp_all add: newline_free_def)
  then show ?thesis
    by (simp add: ParseGrubCfg_text [OF assms(1)])
qed

subsection \<open>White space\<close>

declare white.simps [simp del]

lemma whiteSpace_lead: "r \<in> set whiteSpace \<Longrightarrow> r \<noteq> [] \<and> length r = leadWidth (hd r)"
  by (auto simp: whiteSpace_def leadWidth_def)

lemma whiteSpace_newline:
  "r \<in> set whiteSpace \<Longrightarrow> r \<noteq> [CHR 0x0A] \<Longrightarrow> CHR 0x0A \<notin> set r"
  by (auto simp: whiteSpace_def)

lemma spaceWidth_pos:
  assumes "spaceWidth s \<noteq> 0"
  shows "take (spaceWidth s) s \<in> set whiteSpace" and "spaceWidth s \<le> length s"
proof -
  from assms obtain r where f: "find (\<lambda>r. take (length r) s = r) whiteSpace = Some r"
    by (auto simp: spaceWidth_def split: option.splits)
  then have r: "r \<in> set whiteSpace" "take (length r) s = r"
    by (auto simp: find_Some_iff)
  from f have w: "spaceWidth s = length r"
    by (simp add: spaceWidth_def)
  with r show "take (spaceWidth s) s \<in> set whiteSpace"
    by simp
  from r(2) have "length r \<le> length s"
    by (metis length_take min.cobounded1)
  with w show "spaceWidth s \<le> length s"
    by simp
qed

lemma spaceWidth_whiteSpace:
  assumes "r \<in> set whiteSpace"
  shows "spaceWidth (r @ t) = length r"
proof -
  from assms have "find (\<lambda>r'. take (length r') (r @ t) = r') whiteSpace \<noteq> None"
    by (auto simp: find_None_iff)
  then obtain r' where f: "find (\<lambda>r'. take (length r') (r @ t) = r') whiteSpace = Some r'"
    by auto
  then have r': "r' \<in> set whiteSpace" "take (length r') (r @ t) = r'"
    by (auto simp: find_Some_iff)
  from r' whiteSpace_lead [of r'] whiteSpace_lead [OF assms] have "hd r' = hd r"
    by (metis hd_append2 hd_take length_greater_0_conv)
  with whiteSpace_lead [of r'] whiteSpace_lead [OF assms] r'(1) have "length r' = length r"
    by simp
  with f show ?thesis
    by (simp add: spaceWidth_def)
qed

lemma white_Nil: "white []"
  by (simp add: white.simps)

lemma whiteSpace_nonempty: "r \<in> set whiteSpace \<Longrightarrow> r \<noteq> []"
  by (simp add: whiteSpace_lead)

lemma white_whiteSpace: "r \<in> set whiteSpace \<Longrightarrow> white (r @ t) = white t"
  using whiteSpace_nonempty [of r] by (subst white.simps) (simp add: spaceWidth_whiteSpace)

lemma white_split:
  assumes "white s" and "s \<noteq> []"
  obtains r t where "r \<in> set whiteSpace" and "s = r @ t" and "white t" and "length t < length s"
proof -
  from assms have w: "spaceWidth s \<noteq> 0" and d: "white (drop (spaceWidth s) s)"
    by (subst (asm) white.simps; simp split: if_splits)+
  show thesis
  proof (rule that)
    show "take (spaceWidth s) s \<in> set whiteSpace"
      by (rule spaceWidth_pos(1) [OF w])
    show "s = take (spaceWidth s) s @ drop (spaceWidth s) s"
      by simp
    show "white (drop (spaceWidth s) s)"
      by (rule d)
    show "length (drop (spaceWidth s) s) < length s"
      using w assms(2) by simp
  qed
qed

lemma white_fields: "white s \<Longrightarrow> Fields s = []"
proof (induction s rule: length_induct)
  case (1 s)
  show ?case
  proof (cases "s = []")
    case True
    then show ?thesis by (simp add: Fields_def fieldsFrom.simps)
  next
    case False
    with "1.prems" obtain r t where r: "r \<in> set whiteSpace" and s: "s = r @ t"
      and t: "white t" and l: "length t < length s"
      by (rule white_split)
    from "1.IH" l t have "Fields t = []"
      by simp
    moreover from r have "spaceWidth (r @ t) = length r" "r \<noteq> []"
      by (simp_all add: spaceWidth_whiteSpace whiteSpace_nonempty)
    ultimately show ?thesis
      unfolding Fields_def s by (subst fieldsFrom.simps) simp
  qed
qed

lemma white_TrimLeft: "white s \<Longrightarrow> white (TrimLeft s '' '')"
proof (induction s)
  case Nil
  then show ?case by (simp add: TrimLeft_def)
next
  case (Cons c s)
  show ?case
  proof (cases "c = CHR '' ''")
    case True
    have "white ('' '' @ s) = white s"
      by (rule white_whiteSpace) (simp add: whiteSpace_def)
    with Cons True show ?thesis
      by (simp add: TrimLeft_def)
  next
    case False
    with Cons.prems show ?thesis
      by (simp add: TrimLeft_def)
  qed
qed

lemma white_tokens: "white l \<Longrightarrow> tokens l = []"
  by (simp add: tokens_def white_fields white_TrimLeft)

lemma Split_nonempty: "Split s [n] \<noteq> []"
  by (induction s) (simp_all add: Split_Nil Split_Cons split: list.splits)

lemma Split_prefix:
  "n \<notin> set x \<Longrightarrow> Split (x @ s) [n] = (x @ hd (Split s [n])) # tl (Split s [n])"
proof (induction x)
  case Nil
  then show ?case using Split_nonempty [of s n] by simp
next
  case (Cons c x)
  then show ?case by (auto simp: Split_Cons)
qed

lemma white_Split: "white s \<Longrightarrow> list_all white (Split s ''\<newline>'')"
proof (induction s rule: length_induct)
  case (1 s)
  show ?case
  proof (cases "s = []")
    case True
    then show ?thesis by (simp add: Split_Nil white_Nil)
  next
    case False
    with "1.prems" obtain r t where r: "r \<in> set whiteSpace" and s: "s = r @ t"
      and t: "white t" and l: "length t < length s"
      by (rule white_split)
    from "1.IH" l t have ih: "list_all white (Split t ''\<newline>'')"
      by simp
    show ?thesis
    proof (cases "r = ''\<newline>''")
      case True
      with ih show ?thesis
        by (simp add: s Split_Cons white_Nil)
    next
      case False
      with r have "CHR 0x0A \<notin> set r"
        by (intro whiteSpace_newline) simp_all
      then have "Split s ''\<newline>'' = (r @ hd (Split t ''\<newline>'')) # tl (Split t ''\<newline>'')"
        unfolding s by (rule Split_prefix)
      moreover from ih have "white (hd (Split t ''\<newline>''))" "list_all white (tl (Split t ''\<newline>''))"
        using Split_nonempty [of t "CHR 0x0A"] by (cases "Split t ''\<newline>''"; simp)+
      ultimately show ?thesis
        using r by (simp add: white_whiteSpace)
    qed
  qed
qed

subsection \<open>Files as blocks\<close>

lemma Replace_Nil: "Replace [] old new = []"
  by (subst Replace.simps) simp

lemma ParseGrubCfg_entries:
  "ver = grubV1 \<or> ver = grubV2 \<Longrightarrow>
   (ParseGrubCfg isValid ver grubcfg basedir = Inr ([], bcs)) =
   (entries (ParseGrubCfg isValid ver grubcfg basedir) = bcs)"
  by (auto simp: ParseGrubCfg_text entries_def)

lemma ParseGrubCfg_blocks:
  assumes "ver = grubV1 \<or> ver = grubV2" and "newline_free (pre @ concat blocks)"
    and "list_all (\<lambda>l. \<not> is_menuentry l) pre" and "list_all is_block blocks"
  shows "ParseGrubCfg isValid ver (Join (pre @ concat blocks) ''\<newline>'') basedir =
         Inr ([], filter isValid (map (entry_of ver basedir) blocks))"
  using parse_cfg_lines_blocks [OF assms(3,4), of isValid ver basedir]
  by (simp add: ParseGrubCfg_lines [OF assms(1,2)] parse_cfg_lines_eq)

lemma unquote_Nil: "unquote ver [] = []"
  by (simp add: unquote_def Replace_Nil)

lemma Kernel_directive:
  assumes "\<not> is_menuentry l"
  shows "Kernel (directive ver basedir l c) =
           (if is_linux l then path_Join [basedir, tokens l ! 1] else Kernel c)"
    and "KernelArgs (directive ver basedir l c) =
           (if is_linux l then unquote ver (Join (drop 2 (tokens l)) '' '') else KernelArgs c)"
  using assms
  by (cases "is_linux l"; cases "is_initrd l"; cases "is_multiboot l"; cases "is_module l";
      simp add: directive_linux directive_initrd directive_multiboot directive_module directive_other)+

lemma Initramfs_directive:
  assumes "\<not> is_menuentry l"
  shows "Initramfs (directive ver basedir l c) =
           (if is_initrd l then path_Join [basedir, tokens l ! 1] else Initramfs c)"
proof (cases "is_linux l")
  case True
  then have "\<not> is_initrd l"
    by (auto simp: is_linux_def is_initrd_def)
  with True show ?thesis
    by (simp add: directive_linux)
next
  case False
  with assms show ?thesis
    by (cases "is_initrd l"; cases "is_multiboot l"; cases "is_module l";
        simp add: directive_initrd directive_multiboot directive_module directive_other)
qed

lemma Multiboot_directive:
  assumes "\<not> is_menuentry l"
  shows "Multiboot (directive ver basedir l c) =
           (if is_multiboot l then path_Join [basedir, tokens l ! 1] else Multiboot c)"
    and "MultibootArgs (directive ver basedir l c) =
           (if is_multiboot l then unquote ver (Join (drop 2 (tokens l)) '' '') else MultibootArgs c)"
proof -
  have x: "\<not> is_multiboot l" if "is_linux l \<or> is_initrd l"
    using that by (auto simp: is_linux_def is_initrd_def is_multiboot_def)
  show "Multiboot (directive ver basedir l c) =
           (if is_multiboot l then path_Join [basedir, tokens l ! 1] else Multiboot c)"
    using assms x
    by (cases "is_linux l"; cases "is_initrd l"; cases "is_multiboot l"; cases "is_module l";
        simp add: directive_linux directive_initrd directive_multiboot directive_module directive_other)
  show "MultibootArgs (directive ver basedir l c) =
           (if is_multiboot l then unquote ver (Join (drop 2 (tokens l)) '' '') else MultibootArgs c)"
    using assms x
    by (cases "is_linux l"; cases "is_initrd l"; cases "is_multiboot l"; cases "is_module l";
        simp add: directive_linux directive_initrd directive_multiboot directive_module directive_other)
qed

lemma fill_Cons: "fill ver basedir c (l # ls) = fill ver basedir (directive ver basedir l c) ls"
  by (simp add: fill_def)

lemma fill_append: "fill ver basedir c (xs @ ys) = fill ver basedir (fill ver basedir c xs) ys"
  by (simp add: fill_def)

lemma fill_keeps:
  assumes "list_all (\<lambda>l. \<not> is_menuentry l) ls"
  shows "list_all (\<lambda>l. \<not> is_linux l) ls \<Longrightarrow>
           Kernel (fill ver basedir c ls) = Kernel c \<and> KernelArgs (fill ver basedir c ls) = KernelArgs c"
    and "list_all (\<lambda>l. \<not> is_initrd l) ls \<Longrightarrow> Initramfs (fill ver basedir c ls) = Initramfs c"
    and "list_all (\<lambda>l. \<not> is_multiboot l) ls \<Longrightarrow>
           Multiboot (fill ver basedir c ls) = Multiboot c \<and>
           MultibootArgs (fill ver basedir c ls) = MultibootArgs c"
  using assms
  by (induction ls arbitrary: c)
     (simp_all add: fill_def Kernel_directive Initramfs_directive Multiboot_directive)

subsection \<open>An invalid version\<close>

text \<open>
  C5. For every version other than the two valid ones, and every text and base directory,
  \<^verbatim>\<open>ParseGrubCfg\<close> logs the warning and returns the empty sequence; it does not panic.
\<close>

theorem ParseGrubCfg_invalid_version:
  "ver \<noteq> grubV1 \<Longrightarrow> ver \<noteq> grubV2 \<Longrightarrow>
   ParseGrubCfg isValid ver grubcfg basedir = Inr ([InvalidGrubVersion ver], [])"
  by (simp add: ParseGrubCfg_def)

theorem ParseGrubCfg_invalid_version_witness:
  "(3 :: grubVersion) \<noteq> grubV1 \<and> (3 :: grubVersion) \<noteq> grubV2 \<and>
   ParseGrubCfg IsValid 3 ''menuentry X\<newline>linux /vmlinuz'' ''/mnt'' = Inr ([InvalidGrubVersion 3], [])"
proof -
  have v1: "(3 :: grubVersion) \<noteq> grubV1" by (simp add: grubV1_def)
  have v2: "(3 :: grubVersion) \<noteq> grubV2" by (simp add: grubV2_def)
  from ParseGrubCfg_invalid_version [OF v1 v2] v1 v2 show ?thesis by simp
qed

subsection \<open>The example entry\<close>

lemma c1_lines:
  "Split c1_text ''\<newline>'' =
     [''menuentry '' @ [CHR 0x22, CHR ''X'', CHR 0x22], ''linux /vmlinuz root=/dev/sda1'',
      ''initrd /initrd.img'']"
  by code_simp

lemma c1_entry_of:
  assumes "ver = grubV1 \<or> ver = grubV2"
  shows "entry_of ver ''/mnt''
     [''menuentry '' @ [CHR 0x22, CHR ''X'', CHR 0x22], ''linux /vmlinuz root=/dev/sda1'',
      ''initrd /initrd.img''] = c1_entry"
proof -
  have n: "new_entry (''menuentry '' @ [CHR 0x22, CHR ''X'', CHR 0x22]) =
           new_BootConfig\<lparr>Name := [CHR 0x22, CHR ''X'', CHR 0x22]\<rparr>"
    by code_simp
  have l: "is_linux ''linux /vmlinuz root=/dev/sda1''"
    and lt: "tokens ''linux /vmlinuz root=/dev/sda1'' = [''linux'', ''/vmlinuz'', ''root=/dev/sda1'']"
    and i: "is_initrd ''initrd /initrd.img''"
    and it: "tokens ''initrd /initrd.img'' = [''initrd'', ''/initrd.img'']"
    and pk: "path_Join [''/mnt'', ''/vmlinuz''] = ''/mnt/vmlinuz''"
    and pi: "path_Join [''/mnt'', ''/initrd.img''] = ''/mnt/initrd.img''"
    and r: "Replace ''root=/dev/sda1'' [CHR 0x5C, CHR ''$''] ''$'' = ''root=/dev/sda1''"
    by code_simp+
  have u: "unquote ver ''root=/dev/sda1'' = ''root=/dev/sda1''"
    by (simp add: unquote_def r)
  show ?thesis
    by (simp add: entry_of_def fill_def n [simplified] directive_linux [OF l] directive_initrd [OF i]
        lt it pk pi u c1_entry_def new_BootConfig_def)
qed

text \<open>
  C1 (amended). The text of three lines \<^verbatim>\<open>menuentry "X"\<close>, \<^verbatim>\<open>linux /vmlinuz root=/dev/sda1\<close>
  and \<^verbatim>\<open>initrd /initrd.img\<close>, parsed with either valid version and the base directory
  \<^verbatim>\<open>/mnt\<close>, gives exactly one entry when the validity predicate accepts it. Its name is
  the token as written, with its two double quotes; the kernel is \<^verbatim>\<open>/mnt/vmlinuz\<close>, the
  arguments \<^verbatim>\<open>root=/dev/sda1\<close> and the ramdisk \<^verbatim>\<open>/mnt/initrd.img\<close>.
\<close>

theorem ParseGrubCfg_example:
  assumes "ver = grubV1 \<or> ver = grubV2" and "isValid c1_entry"
  shows "ParseGrubCfg isValid ver c1_text ''/mnt'' = Inr ([], [c1_entry])"
proof -
  let ?b = "[''menuentry '' @ [CHR 0x22, CHR ''X'', CHR 0x22], ''linux /vmlinuz root=/dev/sda1'',
      ''initrd /initrd.img'']"
  have b: "list_all is_block [?b]"
    by code_simp
  have "parse_cfg_lines isValid ver ''/mnt'' ([] @ concat [?b]) =
        Inr (filter isValid (map (entry_of ver ''/mnt'') [?b]))"
    by (rule parse_cfg_lines_blocks [OF _ b]) simp
  with assms c1_entry_of [OF assms(1)] show ?thesis
    by (auto simp: ParseGrubCfg_def c1_lines)
qed

theorem ParseGrubCfg_example_witness:
  "IsValid c1_entry \<and> ParseGrubCfg IsValid grubV1 c1_text ''/mnt'' = Inr ([], [c1_entry])"
proof -
  have v: "IsValid c1_entry"
    by (simp add: IsValid_def c1_entry_def)
  from ParseGrubCfg_example [of grubV1 IsValid, OF _ v] v show ?thesis
    by simp
qed

text \<open>
  The one entry returned for the example has the name of three characters, quote, \<open>X\<close>,
  quote: not the one character \<open>X\<close>.
\<close>

theorem ParseGrubCfg_example_counterexample:
  "ParseGrubCfg IsValid grubV2 c1_text ''/mnt'' = Inr ([], [c1_entry]) \<and>
   Name c1_entry = [CHR 0x22, CHR ''X'', CHR 0x22] \<and> Name c1_entry \<noteq> ''X''"
  by code_simp

subsection \<open>Only valid entries are returned\<close>

lemma pending_agree:
  "agree isValid st st' \<Longrightarrow> pending isValid st = filter isValid (pending (\<lambda>_. True) st')"
  by (simp add: agree_def pending_def split: option.splits)

lemma step_agree:
  assumes "agree isValid st st'" and "wf_state st'"
  shows "agree isValid (step isValid ver basedir st l) (step (\<lambda>_. True) ver basedir st' l)"
proof (cases "is_menuentry l")
  case True
  with pending_agree [OF assms(1)] show ?thesis
    by (simp add: step_menuentry agree_def)
next
  case m: False
  show ?thesis
  proof (cases "inMenuEntry st'")
    case False
    with m assms(1) show ?thesis
      by (simp add: step_outside agree_def)
  next
    case True
    with assms(2) obtain c where c: "cfg st' = Some c"
      by (auto simp: wf_state_def)
    with True m assms(1) show ?thesis
      by (simp add: step_inside [where c = c] agree_def)
  qed
qed

lemma foldl_step_agree:
  "agree isValid st st' \<Longrightarrow> wf_state st' \<Longrightarrow>
   agree isValid (foldl (step isValid ver basedir) st ls)
     (foldl (step (\<lambda>_. True) ver basedir) st' ls)"
proof (induction ls arbitrary: st st')
  case Nil
  then show ?case by simp
next
  case (Cons l ls)
  from Cons.prems have "agree isValid (step isValid ver basedir st l) (step (\<lambda>_. True) ver basedir st' l)"
    by (rule step_agree)
  moreover from Cons.prems(2) have "wf_state (step (\<lambda>_. True) ver basedir st' l)"
    by (simp add: parse_line_wf)
  ultimately show ?case
    by (simp add: Cons.IH)
qed

lemma pending_filter:
  "pending isValid (foldl (step isValid ver basedir) initial_state ls) =
   filter isValid (pending (\<lambda>_. True) (foldl (step (\<lambda>_. True) ver basedir) initial_state ls))"
  by (intro pending_agree foldl_step_agree wf_initial) (simp add: agree_def initial_state_def)

lemma entries_valid_version:
  "ver = grubV1 \<or> ver = grubV2 \<Longrightarrow>
   entries (ParseGrubCfg isValid ver grubcfg basedir) =
   pending isValid (foldl (step isValid ver basedir) initial_state (Split grubcfg ''\<newline>''))"
  by (simp add: ParseGrubCfg_text entries_def)

text \<open>
  C2. Every entry that \<^verbatim>\<open>ParseGrubCfg\<close> returns satisfies the validity predicate. The
  entries returned are, in order, those of the entries under construction (all of which a
  predicate that accepts everything returns) that pass the predicate; the others are
  dropped, and nothing is logged or raised for them. In a file of blocks there is one entry
  under construction for each block, the one that ends at the next \<^verbatim>\<open>menuentry\<close> line or at
  the end of the input. The entry of a block without a \<^verbatim>\<open>linux\<close>, \<^verbatim>\<open>initrd\<close> or \<^verbatim>\<open>multiboot\<close>
  line has no kernel, no ramdisk and no multiboot image.
\<close>

theorem ParseGrubCfg_only_valid:
  "(\<forall>e \<in> set (entries (ParseGrubCfg isValid ver grubcfg basedir)). isValid e) \<and>
   entries (ParseGrubCfg isValid ver grubcfg basedir) =
     filter isValid (entries (ParseGrubCfg (\<lambda>_. True) ver grubcfg basedir)) \<and>
   ParseGrubCfg isValid ver grubcfg basedir =
     Inr (if ver = grubV1 \<or> ver = grubV2 then [] else [InvalidGrubVersion ver],
          entries (ParseGrubCfg isValid ver grubcfg basedir)) \<and>
   ((ver = grubV1 \<or> ver = grubV2) \<and> newline_free (pre @ concat blocks) \<and>
    list_all (\<lambda>l. \<not> is_menuentry l) pre \<and> list_all is_block blocks \<longrightarrow>
      entries (ParseGrubCfg isValid ver (Join (pre @ concat blocks) ''\<newline>'') basedir) =
        filter isValid (map (entry_of ver basedir) blocks)) \<and>
   (is_block b \<and> list_all (\<lambda>l. \<not> is_linux l \<and> \<not> is_initrd l \<and> \<not> is_multiboot l) (tl b) \<longrightarrow>
      Kernel (entry_of ver basedir b) = [] \<and> Initramfs (entry_of ver basedir b) = [] \<and>
      Multiboot (entry_of ver basedir b) = [])"
proof -
  have main: "(\<forall>e \<in> set (entries (ParseGrubCfg isValid ver grubcfg basedir)). isValid e) \<and>
   entries (ParseGrubCfg isValid ver grubcfg basedir) =
     filter isValid (entries (ParseGrubCfg (\<lambda>_. True) ver grubcfg basedir)) \<and>
   ParseGrubCfg isValid ver grubcfg basedir =
     Inr (if ver = grubV1 \<or> ver = grubV2 then [] else [InvalidGrubVersion ver],
          entries (ParseGrubCfg isValid ver grubcfg basedir))"
  proof (cases "ver = grubV1 \<or> ver = grubV2")
    case True
    define bcs where "bcs = pending isValid (foldl (step isValid ver basedir) initial_state (Split grubcfg ''\<newline>''))"
    from True have p: "ParseGrubCfg isValid ver grubcfg basedir = Inr ([], bcs)"
      by (simp add: ParseGrubCfg_text bcs_def)
    from True have "bcs = filter isValid (entries (ParseGrubCfg (\<lambda>_. True) ver grubcfg basedir))"
      by (simp only: bcs_def entries_valid_version pending_filter [of isValid])
    then have f: "(\<forall>e \<in> set bcs. isValid e) \<and>
       bcs = filter isValid (entries (ParseGrubCfg (\<lambda>_. True) ver grubcfg basedir))"
      by simp
    have e: "entries (ParseGrubCfg isValid ver grubcfg basedir) = bcs"
      by (simp add: p entries_def)
    have i: "(if ver = grubV1 \<or> ver = grubV2 then [] else [InvalidGrubVersion ver]) = []"
      using True by simp
    show ?thesis
      unfolding e i
    proof (intro conjI)
      show "\<forall>e\<in>set bcs. isValid e" using f by (rule conjunct1)
      show "bcs = filter isValid (entries (ParseGrubCfg (\<lambda>_. True) ver grubcfg basedir))"
        using f by (rule conjunct2)
      show "ParseGrubCfg isValid ver grubcfg basedir = Inr ([], bcs)" by (rule p)
    qed
  next
    case False
    then show ?thesis
      by (simp add: ParseGrubCfg_def entries_def)
  qed
  have blocks: "entries (ParseGrubCfg isValid ver (Join (pre @ concat blocks) ''\<newline>'') basedir) =
        filter isValid (map (entry_of ver basedir) blocks)"
    if "ver = grubV1 \<or> ver = grubV2" "newline_free (pre @ concat blocks)"
      "list_all (\<lambda>l. \<not> is_menuentry l) pre" "list_all is_block blocks"
    by (simp add: ParseGrubCfg_blocks [OF that] entries_def)
  have bare: "Kernel (entry_of ver basedir b) = [] \<and> Initramfs (entry_of ver basedir b) = [] \<and>
      Multiboot (entry_of ver basedir b) = []"
    if b: "is_block b"
      and n: "list_all (\<lambda>l. \<not> is_linux l \<and> \<not> is_initrd l \<and> \<not> is_multiboot l) (tl b)"
  proof -
    from b have m: "list_all (\<lambda>l. \<not> is_menuentry l) (tl b)"
      by (simp add: is_block_def)
    from n have "list_all (\<lambda>l. \<not> is_linux l) (tl b)" "list_all (\<lambda>l. \<not> is_initrd l) (tl b)"
      "list_all (\<lambda>l. \<not> is_multiboot l) (tl b)"
      by (simp_all add: list_all_iff)
    with fill_keeps [OF m, of ver basedir "new_entry (hd b)"] show ?thesis
      by (simp add: entry_of_def new_entry_def new_BootConfig_def)
  qed
  from main blocks bare show ?thesis
    by blast
qed

theorem ParseGrubCfg_only_valid_witness:
  "entries (ParseGrubCfg (\<lambda>_. True) grubV2 c2_text ''/mnt'') =
     [new_BootConfig\<lparr>Name := ''A''\<rparr>,
      new_BootConfig\<lparr>Name := ''B'', Kernel := ''/mnt/k''\<rparr>,
      new_BootConfig\<lparr>Name := ''C''\<rparr>] \<and>
   ParseGrubCfg IsValid grubV2 c2_text ''/mnt'' =
     Inr ([], [new_BootConfig\<lparr>Name := ''B'', Kernel := ''/mnt/k''\<rparr>]) \<and>
   entries (ParseGrubCfg IsValid grubV2 c2_text ''/mnt'') =
     filter IsValid (map (entry_of grubV2 ''/mnt'')
       [[''menuentry A'', ''echo hello''], [''menuentry B'', ''linux /k''], [''menuentry C'']]) \<and>
   Kernel (entry_of grubV2 ''/mnt'' [''menuentry A'', ''echo hello'']) = [] \<and>
   Multiboot (entry_of grubV2 ''/mnt'' [''menuentry A'', ''echo hello'']) = []"
proof -
  let ?blocks = "[[''menuentry A'', ''echo hello''], [''menuentry B'', ''linux /k''], [''menuentry C'']]"
  have a: "entries (ParseGrubCfg (\<lambda>_. True) grubV2 c2_text ''/mnt'') =
     [new_BootConfig\<lparr>Name := ''A''\<rparr>,
      new_BootConfig\<lparr>Name := ''B'', Kernel := ''/mnt/k''\<rparr>,
      new_BootConfig\<lparr>Name := ''C''\<rparr>]"
    by code_simp
  note t = ParseGrubCfg_only_valid [of IsValid grubV2 c2_text "''/mnt''" "[]" ?blocks
      "[''menuentry A'', ''echo hello'']"]
  have e: "entries (ParseGrubCfg IsValid grubV2 c2_text ''/mnt'') =
     [new_BootConfig\<lparr>Name := ''B'', Kernel := ''/mnt/k''\<rparr>]"
    using t [THEN conjunct2, THEN conjunct1] a by (simp add: IsValid_def new_BootConfig_def)
  have p: "ParseGrubCfg IsValid grubV2 c2_text ''/mnt'' =
     Inr ([], [new_BootConfig\<lparr>Name := ''B'', Kernel := ''/mnt/k''\<rparr>])"
    by (subst t [THEN conjunct2, THEN conjunct2, THEN conjunct1]) (simp add: e)
  have "(grubV2 = grubV1 \<or> grubV2 = grubV2) \<and> newline_free ([] @ concat ?blocks) \<and>
    list_all (\<lambda>l. \<not> is_menuentry l) [] \<and> list_all is_block ?blocks"
    by code_simp
  moreover have "Join ([] @ concat ?blocks) ''\<newline>'' = c2_text"
    by code_simp
  ultimately have b: "entries (ParseGrubCfg IsValid grubV2 c2_text ''/mnt'') =
     filter IsValid (map (entry_of grubV2 ''/mnt'') ?blocks)"
    using t [THEN conjunct2, THEN conjunct2, THEN conjunct2, THEN conjunct1] by simp
  have "is_block [''menuentry A'', ''echo hello''] \<and>
    list_all (\<lambda>l. \<not> is_linux l \<and> \<not> is_initrd l \<and> \<not> is_multiboot l) (tl [''menuentry A'', ''echo hello''])"
    by code_simp
  then have k: "Kernel (entry_of grubV2 ''/mnt'' [''menuentry A'', ''echo hello'']) = [] \<and>
    Multiboot (entry_of grubV2 ''/mnt'' [''menuentry A'', ''echo hello'']) = []"
    using t [THEN conjunct2, THEN conjunct2, THEN conjunct2, THEN conjunct2] by blast
  from a p b k show ?thesis
    by (intro conjI) simp_all
qed

subsection \<open>Unquoting\<close>

lemma Replace_Cons:
  "Replace (c # s) [a, b] new =
     (if c = a \<and> s \<noteq> [] \<and> hd s = b then new @ Replace (tl s) [a, b] new
      else c # Replace s [a, b] new)"
  by (subst Replace.simps) (cases s; auto)

lemma Replace_no_escape: "\<not> has_escape p \<Longrightarrow> Replace p escaped_dollar new = p"
  by (induction p rule: has_escape.induct)
     (auto simp: Replace_Nil Replace_Cons escaped_dollar_def)

lemma Replace_part:
  "\<not> has_escape p \<Longrightarrow>
   Replace (p @ escaped_dollar @ s) escaped_dollar new = p @ new @ Replace s escaped_dollar new"
  by (induction p rule: has_escape.induct)
     (auto simp: Replace_Nil Replace_Cons escaped_dollar_def)

lemma Replace_Join:
  "list_all (\<lambda>p. \<not> has_escape p) parts \<Longrightarrow>
   Replace (Join parts escaped_dollar) escaped_dollar new = Join parts new"
proof (induction parts)
  case Nil
  then show ?case by (simp add: Replace_Nil)
next
  case (Cons p parts)
  show ?case
  proof (cases parts)
    case Nil
    with Cons.prems show ?thesis by (simp add: Replace_no_escape)
  next
    case (Cons q qs)
    with Cons.prems Cons.IH show ?thesis by (simp add: Replace_part)
  qed
qed

text \<open>
  C3. Under version 2 every occurrence of backslash-dollar becomes one dollar sign and
  nothing else changes: a string cut at its occurrences of the escape into \<open>parts\<close> that
  hold none is returned with a dollar sign between the parts. Under any other version the
  string is returned as it is. The string is what a \<^verbatim>\<open>linux\<close> line stores as kernel arguments,
  what a \<^verbatim>\<open>multiboot\<close> line stores as multiboot arguments, and what a \<^verbatim>\<open>module\<close> line
  appends after the module path.
\<close>

theorem unquote_escaped_dollar:
  "(list_all (\<lambda>p. \<not> has_escape p) parts \<longrightarrow>
      unquote grubV2 (Join parts escaped_dollar) = Join parts ''$'') \<and>
   (ver \<noteq> grubV2 \<longrightarrow> unquote ver s = s) \<and>
   (is_linux l \<longrightarrow>
      KernelArgs (directive ver basedir l c) = unquote ver (Join (drop 2 (tokens l)) '' '')) \<and>
   (is_multiboot l \<longrightarrow>
      MultibootArgs (directive ver basedir l c) = unquote ver (Join (drop 2 (tokens l)) '' '')) \<and>
   (is_module l \<longrightarrow>
      Modules (directive ver basedir l c) =
        Modules c @
        [path_Join [basedir, tokens l ! 1] @
         (if unquote ver (Join (drop 2 (tokens l)) '' '') \<noteq> []
          then '' '' @ unquote ver (Join (drop 2 (tokens l)) '' '') else [])])"
  by (simp add: unquote_def Replace_Join [unfolded escaped_dollar_def] escaped_dollar_def
      directive_linux directive_multiboot directive_module)

theorem unquote_escaped_dollar_witness:
  "unquote grubV2 (''a='' @ escaped_dollar @ ''foo'') = ''a=$foo'' \<and>
   unquote grubV1 (''a='' @ escaped_dollar @ ''foo'') = ''a='' @ escaped_dollar @ ''foo'' \<and>
   KernelArgs (directive grubV2 ''/mnt'' (''linux /k a='' @ escaped_dollar @ ''foo'') new_BootConfig)
     = ''a=$foo'' \<and>
   MultibootArgs (directive grubV1 ''/mnt'' (''multiboot /m a='' @ escaped_dollar @ ''foo'') new_BootConfig)
     = ''a='' @ escaped_dollar @ ''foo'' \<and>
   Modules (directive grubV2 ''/mnt'' (''module /o a='' @ escaped_dollar @ ''foo'') new_BootConfig)
     = [''/mnt/o a=$foo'']"
proof -
  let ?s = "''a='' @ escaped_dollar @ ''foo''"
  have parts: "list_all (\<lambda>p. \<not> has_escape p) [''a='', ''foo'']"
    by simp
  have j: "Join [''a='', ''foo''] escaped_dollar = ?s" and j': "Join [''a='', ''foo''] ''$'' = ''a=$foo''"
    by simp_all
  have v: "grubV1 \<noteq> grubV2"
    by (simp add: grubV1_def grubV2_def)
  have l: "is_linux (''linux /k a='' @ escaped_dollar @ ''foo'')"
    and lt: "Join (drop 2 (tokens (''linux /k a='' @ escaped_dollar @ ''foo''))) '' '' = ?s"
    and m: "is_multiboot (''multiboot /m a='' @ escaped_dollar @ ''foo'')"
    and mt: "Join (drop 2 (tokens (''multiboot /m a='' @ escaped_dollar @ ''foo''))) '' '' = ?s"
    and o: "is_module (''module /o a='' @ escaped_dollar @ ''foo'')"
    and ot: "Join (drop 2 (tokens (''module /o a='' @ escaped_dollar @ ''foo''))) '' '' = ?s"
    and op: "path_Join [''/mnt'', tokens (''module /o a='' @ escaped_dollar @ ''foo'') ! 1] = ''/mnt/o''"
    by code_simp+
  note t = unquote_escaped_dollar [where parts = "[''a='', ''foo'']" and s = ?s and c = new_BootConfig
      and basedir = "''/mnt''"]
  have u2: "unquote grubV2 ?s = ''a=$foo''"
    using t [of grubV1 "[]"] parts j j' by simp
  have u1: "unquote grubV1 ?s = ?s"
    using t [of grubV1 "[]"] v by simp
  have k: "KernelArgs (directive grubV2 ''/mnt'' (''linux /k a='' @ escaped_dollar @ ''foo'') new_BootConfig)
     = ''a=$foo''"
    using t [of grubV2 "''linux /k a='' @ escaped_dollar @ ''foo''"] l lt u2 by simp
  have b: "MultibootArgs (directive grubV1 ''/mnt'' (''multiboot /m a='' @ escaped_dollar @ ''foo'') new_BootConfig)
     = ?s"
    using t [of grubV1 "''multiboot /m a='' @ escaped_dollar @ ''foo''"] m mt u1 by simp
  have d: "Modules (directive grubV2 ''/mnt'' (''module /o a='' @ escaped_dollar @ ''foo'') new_BootConfig)
     = [''/mnt/o a=$foo'']"
    using t [of grubV2 "''module /o a='' @ escaped_dollar @ ''foo''"] o ot op u2
    by (simp add: new_BootConfig_def)
  from u2 u1 k b d show ?thesis
    by (intro conjI)
qed

subsection \<open>Module lines\<close>

lemma Modules_directive:
  assumes "\<not> is_menuentry l"
  shows "Modules (directive ver basedir l c) =
         Modules c @ (if is_module l then [module_string ver basedir l] else [])"
proof (cases "is_module l")
  case True
  then show ?thesis
    by (simp add: directive_module module_string_def)
next
  case False
  with assms show ?thesis
    by (cases "is_linux l"; cases "is_initrd l"; cases "is_multiboot l")
       (simp_all add: directive_linux directive_initrd directive_multiboot directive_other)
qed

lemma Modules_fill:
  "list_all (\<lambda>l. \<not> is_menuentry l) ls \<Longrightarrow>
   Modules (fill ver basedir c ls) =
   Modules c @ map (module_string ver basedir) (filter is_module ls)"
proof (induction ls arbitrary: c)
  case Nil
  then show ?case by (simp add: fill_def)
next
  case (Cons l ls)
  from Cons.prems have "Modules (fill ver basedir (directive ver basedir l c) ls) =
     Modules (directive ver basedir l c) @ map (module_string ver basedir) (filter is_module ls)"
    by (intro Cons.IH) simp
  with Cons.prems show ?case
    by (simp add: fill_def Modules_directive)
qed

lemma Modules_entry_of:
  "is_block b \<Longrightarrow>
   Modules (entry_of ver basedir b) = map (module_string ver basedir) (filter is_module (tl b))"
  by (simp add: entry_of_def is_block_def Modules_fill new_entry_def new_BootConfig_def)

text \<open>
  C4. In a file made of lines outside any entry followed by blocks, the entries returned are
  the valid ones among the entries of the blocks, and the \<^verbatim>\<open>Modules\<close> of a block's entry hold
  one string for each \<^verbatim>\<open>module\<close> line of the block, in the order of the lines: the module
  path joined with the base directory, followed by one space and the unquoted arguments
  when these are not empty. The lines \<^verbatim>\<open>module /a.ko arg1\<close> and \<^verbatim>\<open>module /b.ko\<close> with the
  base directory \<^verbatim>\<open>/mnt\<close> give \<^verbatim>\<open>/mnt/a.ko arg1\<close> and \<^verbatim>\<open>/mnt/b.ko\<close>.
\<close>

theorem module_lines:
  assumes "ver = grubV1 \<or> ver = grubV2" and "newline_free (pre @ concat blocks)"
    and "list_all (\<lambda>l. \<not> is_menuentry l) pre" and "list_all is_block blocks"
  shows "entries (ParseGrubCfg isValid ver (Join (pre @ concat blocks) ''\<newline>'') basedir) =
           filter isValid (map (entry_of ver basedir) blocks) \<and>
         (\<forall>b \<in> set blocks.
            Modules (entry_of ver basedir b) =
              map (\<lambda>l. path_Join [basedir, tokens l ! 1] @
                        (if unquote ver (Join (drop 2 (tokens l)) '' '') \<noteq> []
                         then '' '' @ unquote ver (Join (drop 2 (tokens l)) '' '') else []))
                (filter is_module (tl b)))"
proof -
  have "Modules (entry_of ver basedir b) =
          map (\<lambda>l. path_Join [basedir, tokens l ! 1] @
                    (if unquote ver (Join (drop 2 (tokens l)) '' '') \<noteq> []
                     then '' '' @ unquote ver (Join (drop 2 (tokens l)) '' '') else []))
            (filter is_module (tl b))" if "b \<in> set blocks" for b
    using that assms(4) Modules_entry_of [of b ver basedir]
    by (simp add: list_all_iff module_string_def [abs_def])
  then show ?thesis
    by (simp add: ParseGrubCfg_blocks [OF assms] entries_def)
qed

theorem module_lines_witness:
  "ParseGrubCfg IsValid grubV2 c4_text ''/mnt'' =
     Inr ([], [new_BootConfig\<lparr>Name := ''X'', Kernel := ''/mnt/vmlinuz'',
                 Modules := [''/mnt/a.ko arg1'', ''/mnt/b.ko'']\<rparr>]) \<and>
   Modules (entry_of grubV2 ''/mnt''
      [''menuentry X'', ''linux /vmlinuz'', ''module /a.ko arg1'', ''module /b.ko'']) =
     [''/mnt/a.ko arg1'', ''/mnt/b.ko'']"
proof -
  let ?b = "[''menuentry X'', ''linux /vmlinuz'', ''module /a.ko arg1'', ''module /b.ko'']"
  have v: "grubV2 = grubV1 \<or> grubV2 = grubV2" by simp
  have n: "newline_free ([] @ concat [?b])" by code_simp
  have p: "list_all (\<lambda>l. \<not> is_menuentry l) []" by simp
  have b: "list_all is_block [?b]" by code_simp
  have t: "Join ([] @ concat [?b]) ''\<newline>'' = c4_text" by code_simp
  have f: "filter is_module (tl ?b) = [''module /a.ko arg1'', ''module /b.ko'']"
    by code_simp
  have m: "map (\<lambda>l. path_Join [''/mnt'', tokens l ! 1] @
                    (if unquote grubV2 (Join (drop 2 (tokens l)) '' '') \<noteq> []
                     then '' '' @ unquote grubV2 (Join (drop 2 (tokens l)) '' '') else []))
            [''module /a.ko arg1'', ''module /b.ko''] = [''/mnt/a.ko arg1'', ''/mnt/b.ko'']"
    by code_simp
  have e: "entry_of grubV2 ''/mnt'' ?b = new_BootConfig\<lparr>Name := ''X'', Kernel := ''/mnt/vmlinuz'',
                 Modules := [''/mnt/a.ko arg1'', ''/mnt/b.ko'']\<rparr>"
    by code_simp
  note r = module_lines [OF v n p b, of IsValid "''/mnt''", unfolded t]
  have "Modules (entry_of grubV2 ''/mnt'' ?b) = [''/mnt/a.ko arg1'', ''/mnt/b.ko'']"
    using r [THEN conjunct2] by (simp only: f m list.set ball_simps)
  moreover have "entries (ParseGrubCfg IsValid grubV2 c4_text ''/mnt'') =
     [new_BootConfig\<lparr>Name := ''X'', Kernel := ''/mnt/vmlinuz'',
                 Modules := [''/mnt/a.ko arg1'', ''/mnt/b.ko'']\<rparr>]"
    using r [THEN conjunct1] by (simp add: e IsValid_def new_BootConfig_def)
  ultimately show ?thesis
    by (simp only: ParseGrubCfg_entries [OF v])
qed

subsection \<open>Repeated directives\<close>

lemma entry_of_last:
  assumes "is_block b" and "tl b = r1 @ l # r2"
  shows "entry_of ver basedir b =
         fill ver basedir (directive ver basedir l (fill ver basedir (new_entry (hd b)) r1)) r2"
    and "\<not> is_menuentry l" and "list_all (\<lambda>l. \<not> is_menuentry l) r2"
  using assms by (simp_all add: entry_of_def is_block_def fill_append fill_Cons)

text \<open>
  C9. In the entry of a block, the kernel and its arguments are those of the last
  \<^verbatim>\<open>linux\<close>, \<^verbatim>\<open>linux16\<close> or \<^verbatim>\<open>linuxefi\<close> line of the block, whatever earlier lines had set;
  likewise the ramdisk is that of the last \<^verbatim>\<open>initrd\<close>, \<^verbatim>\<open>initrd16\<close> or \<^verbatim>\<open>initrdefi\<close> line, and
  the multiboot image and its arguments those of the last \<^verbatim>\<open>multiboot\<close> line. A line of
  exactly two tokens leaves the arguments empty.
\<close>

theorem later_line_overwrites:
  assumes "ver = grubV1 \<or> ver = grubV2" and "newline_free (pre @ concat blocks)"
    and "list_all (\<lambda>l. \<not> is_menuentry l) pre" and "list_all is_block blocks"
  shows "entries (ParseGrubCfg isValid ver (Join (pre @ concat blocks) ''\<newline>'') basedir) =
           filter isValid (map (entry_of ver basedir) blocks) \<and>
         (\<forall>b \<in> set blocks. \<forall>r1 l r2. tl b = r1 @ l # r2 \<longrightarrow>
            (is_linux l \<and> list_all (\<lambda>x. \<not> is_linux x) r2 \<longrightarrow>
               Kernel (entry_of ver basedir b) = path_Join [basedir, tokens l ! 1] \<and>
               KernelArgs (entry_of ver basedir b) = unquote ver (Join (drop 2 (tokens l)) '' '') \<and>
               (length (tokens l) = 2 \<longrightarrow> KernelArgs (entry_of ver basedir b) = [])) \<and>
            (is_initrd l \<and> list_all (\<lambda>x. \<not> is_initrd x) r2 \<longrightarrow>
               Initramfs (entry_of ver basedir b) = path_Join [basedir, tokens l ! 1]) \<and>
            (is_multiboot l \<and> list_all (\<lambda>x. \<not> is_multiboot x) r2 \<longrightarrow>
               Multiboot (entry_of ver basedir b) = path_Join [basedir, tokens l ! 1] \<and>
               MultibootArgs (entry_of ver basedir b) = unquote ver (Join (drop 2 (tokens l)) '' '') \<and>
               (length (tokens l) = 2 \<longrightarrow> MultibootArgs (entry_of ver basedir b) = [])))"
proof (intro conjI ballI allI impI; (elim conjE)?)
  show "entries (ParseGrubCfg isValid ver (Join (pre @ concat blocks) ''\<newline>'') basedir) =
           filter isValid (map (entry_of ver basedir) blocks)"
    by (simp add: ParseGrubCfg_blocks [OF assms] entries_def)
next
  fix b r1 l r2
  assume b: "b \<in> set blocks" and t: "tl b = r1 @ l # r2"
  from b assms(4) have "is_block b"
    by (simp add: list_all_iff)
  note e = entry_of_last [OF this t]
  {
    assume l: "is_linux l" and r2: "list_all (\<lambda>x. \<not> is_linux x) r2"
    show k: "Kernel (entry_of ver basedir b) = path_Join [basedir, tokens l ! 1]"
      using l fill_keeps(1) [OF e(3) r2] by (simp add: e(1) Kernel_directive [OF e(2)])
    show a: "KernelArgs (entry_of ver basedir b) = unquote ver (Join (drop 2 (tokens l)) '' '')"
      using l fill_keeps(1) [OF e(3) r2] by (simp add: e(1) Kernel_directive [OF e(2)])
    show "KernelArgs (entry_of ver basedir b) = []" if "length (tokens l) = 2"
      using that by (simp add: a unquote_Nil)
  }
  {
    assume l: "is_initrd l" and r2: "list_all (\<lambda>x. \<not> is_initrd x) r2"
    show "Initramfs (entry_of ver basedir b) = path_Join [basedir, tokens l ! 1]"
      using l fill_keeps(2) [OF e(3) r2] by (simp add: e(1) Initramfs_directive [OF e(2)])
  }
  {
    assume l: "is_multiboot l" and r2: "list_all (\<lambda>x. \<not> is_multiboot x) r2"
    show "Multiboot (entry_of ver basedir b) = path_Join [basedir, tokens l ! 1]"
      using l fill_keeps(3) [OF e(3) r2] by (simp add: e(1) Multiboot_directive [OF e(2)])
    show a: "MultibootArgs (entry_of ver basedir b) = unquote ver (Join (drop 2 (tokens l)) '' '')"
      using l fill_keeps(3) [OF e(3) r2] by (simp add: e(1) Multiboot_directive [OF e(2)])
    show "MultibootArgs (entry_of ver basedir b) = []" if "length (tokens l) = 2"
      using that by (simp add: a unquote_Nil)
  }
qed

theorem later_line_overwrites_witness:
  "ParseGrubCfg IsValid grubV1 c9_text ''/mnt'' =
     Inr ([], [entry_of grubV1 ''/mnt''
        [''menuentry X'', ''linux /a x y'', ''initrd /i1'', ''linux16 /b'', ''initrdefi /i2'']]) \<and>
   Kernel (entry_of grubV1 ''/mnt''
        [''menuentry X'', ''linux /a x y'', ''initrd /i1'', ''linux16 /b'', ''initrdefi /i2'']) = ''/mnt/b'' \<and>
   KernelArgs (entry_of grubV1 ''/mnt''
        [''menuentry X'', ''linux /a x y'', ''initrd /i1'', ''linux16 /b'', ''initrdefi /i2'']) = [] \<and>
   Initramfs (entry_of grubV1 ''/mnt''
        [''menuentry X'', ''linux /a x y'', ''initrd /i1'', ''linux16 /b'', ''initrdefi /i2'']) = ''/mnt/i2''"
proof -
  let ?b = "[''menuentry X'', ''linux /a x y'', ''initrd /i1'', ''linux16 /b'', ''initrdefi /i2'']"
  let ?e = "entry_of grubV1 ''/mnt'' ?b"
  have v: "grubV1 = grubV1 \<or> grubV1 = grubV2" by simp
  have n: "newline_free ([] @ concat [?b])" by code_simp
  have p: "list_all (\<lambda>l. \<not> is_menuentry l) []" by simp
  have b: "list_all is_block [?b]" by code_simp
  have t: "Join ([] @ concat [?b]) ''\<newline>'' = c9_text" by code_simp
  note r = later_line_overwrites [OF v n p b, of IsValid "''/mnt''", unfolded t]
  have l: "is_linux ''linux16 /b''" "list_all (\<lambda>x. \<not> is_linux x) [''initrdefi /i2'']"
    "length (tokens ''linux16 /b'') = 2" "path_Join [''/mnt'', tokens ''linux16 /b'' ! 1] = ''/mnt/b''"
    by code_simp+
  have i: "is_initrd ''initrdefi /i2''" "path_Join [''/mnt'', tokens ''initrdefi /i2'' ! 1] = ''/mnt/i2''"
    by code_simp+
  have k: "Kernel ?e = ''/mnt/b'' \<and> KernelArgs ?e = []"
    using r [THEN conjunct2, rule_format,
        of ?b "[''linux /a x y'', ''initrd /i1'']" "''linux16 /b''" "[''initrdefi /i2'']"] l
    by (simp add: unquote_Nil)
  have m: "Initramfs ?e = ''/mnt/i2''"
    using r [THEN conjunct2, rule_format,
        of ?b "[''linux /a x y'', ''initrd /i1'', ''linux16 /b'']" "''initrdefi /i2''" "[]"] i
    by simp
  from k have "IsValid ?e"
    by (simp add: IsValid_def)
  with r [THEN conjunct1] have "entries (ParseGrubCfg IsValid grubV1 c9_text ''/mnt'') = [?e]"
    by simp
  then have "ParseGrubCfg IsValid grubV1 c9_text ''/mnt'' = Inr ([], [?e])"
    by (simp only: ParseGrubCfg_entries [OF v])
  with k m show ?thesis
    by simp
qed

subsection \<open>Nothing but white space\<close>

lemma no_menuentry_empty:
  assumes "ver = grubV1 \<or> ver = grubV2"
    and "list_all (\<lambda>l. \<not> is_menuentry l) (Split grubcfg ''\<newline>'')"
  shows "ParseGrubCfg isValid ver grubcfg basedir = Inr ([], [])"
proof -
  have "foldl (step isValid ver basedir) initial_state (Split grubcfg ''\<newline>'') = initial_state"
    using assms(2) by (intro foldl_step_outside) (simp_all add: initial_state_def)
  then show ?thesis
    by (simp add: ParseGrubCfg_text [OF assms(1)] pending_def initial_state_def)
qed

lemma white_not_menuentry: "white l \<Longrightarrow> \<not> is_menuentry l"
  by (simp add: is_menuentry_def white_tokens)

text \<open>
  C10. For a valid version and any base directory, \<^verbatim>\<open>ParseGrubCfg\<close> returns the empty
  sequence for the empty string and for a text of white space and newlines only; more
  generally for any text none of whose lines is a \<^verbatim>\<open>menuentry\<close> line, since only such a
  line creates an entry.
\<close>

theorem ParseGrubCfg_white:
  assumes "ver = grubV1 \<or> ver = grubV2"
  shows "ParseGrubCfg isValid ver [] basedir = Inr ([], []) \<and>
         (white grubcfg \<longrightarrow> ParseGrubCfg isValid ver grubcfg basedir = Inr ([], [])) \<and>
         (list_all (\<lambda>l. \<not> is_menuentry l) (Split grubcfg ''\<newline>'') \<longrightarrow>
            ParseGrubCfg isValid ver grubcfg basedir = Inr ([], []))"
proof (intro conjI impI)
  show "ParseGrubCfg isValid ver [] basedir = Inr ([], [])"
    by (rule no_menuentry_empty [OF assms]) (simp add: Split_Nil is_menuentry_def tokens_Nil)
  show "ParseGrubCfg isValid ver grubcfg basedir = Inr ([], [])" if "white grubcfg"
  proof (rule no_menuentry_empty [OF assms])
    from that have "list_all white (Split grubcfg ''\<newline>'')"
      by (rule white_Split)
    then show "list_all (\<lambda>l. \<not> is_menuentry l) (Split grubcfg ''\<newline>'')"
      by (simp add: list_all_iff white_not_menuentry)
  qed
  show "ParseGrubCfg isValid ver grubcfg basedir = Inr ([], [])"
    if "list_all (\<lambda>l. \<not> is_menuentry l) (Split grubcfg ''\<newline>'')"
    using that by (rule no_menuentry_empty [OF assms])
qed

theorem ParseGrubCfg_white_witness:
  "white c10_text \<and> ParseGrubCfg IsValid grubV2 c10_text ''/mnt'' = Inr ([], []) \<and>
   list_all (\<lambda>l. \<not> is_menuentry l) (Split ''linux /vmlinuz\<newline>initrd /i'' ''\<newline>'') \<and>
   ParseGrubCfg IsValid grubV1 ''linux /vmlinuz\<newline>initrd /i'' ''/mnt'' = Inr ([], [])"
proof -
  have v: "grubV2 = grubV1 \<or> grubV2 = grubV2" "grubV1 = grubV1 \<or> grubV1 = grubV2"
    by simp_all
  have w: "white c10_text"
    by code_simp
  have m: "list_all (\<lambda>l. \<not> is_menuentry l) (Split ''linux /vmlinuz\<newline>initrd /i'' ''\<newline>'')"
    by code_simp
  from w m ParseGrubCfg_white [OF v(1), of IsValid "''/mnt''" c10_text]
    ParseGrubCfg_white [OF v(2), of IsValid "''/mnt''" "''linux /vmlinuz\<newline>initrd /i''"]
  show ?thesis
    by simp
qed

subsection \<open>Lines without effect\<close>

lemma ignored_kinds:
  assumes "ignored l"
  shows "\<not> is_menuentry l" "\<not> is_linux l" "\<not> is_initrd l" "\<not> is_multiboot l" "\<not> is_module l"
proof -
  from assms have "tokens l = [] \<or> hd (tokens l) \<notin> set directive_names"
    by (auto simp: ignored_def white_tokens)
  then show "\<not> is_menuentry l" "\<not> is_linux l" "\<not> is_initrd l" "\<not> is_multiboot l" "\<not> is_module l"
    by (auto simp: is_menuentry_def is_linux_def is_initrd_def is_multiboot_def is_module_def
        directive_names_def)
qed

lemma step_ignored:
  assumes "wf_state st" and "ignored l"
  shows "step isValid ver basedir st l = st"
proof (cases "cfg st")
  case None
  with assms(1) have "\<not> inMenuEntry st"
    by (simp add: wf_state_def)
  with ignored_kinds(1) [OF assms(2)] show ?thesis
    by (simp add: step_outside)
next
  case (Some c)
  with assms(1) have "inMenuEntry st"
    by (simp add: wf_state_def)
  with Some ignored_kinds [OF assms(2)] show ?thesis
    by (simp add: step_inside [where c = c] directive_other)
qed

lemma wf_foldl: "wf_state st \<Longrightarrow> wf_state (foldl (step isValid ver basedir) st ls)"
  using parse_lines_wf by blast

lemma foldl_step_skip:
  assumes "step isValid ver basedir (foldl (step isValid ver basedir) st ls1) l =
           foldl (step isValid ver basedir) st ls1"
  shows "foldl (step isValid ver basedir) st (ls1 @ l # ls2) =
         foldl (step isValid ver basedir) st (ls1 @ ls2)"
  using assms by simp

lemma newline_free_skip: "newline_free (ls1 @ l # ls2) \<Longrightarrow> newline_free (ls1 @ ls2)"
  by (simp add: newline_free_def)

lemma ParseGrubCfg_skip:
  assumes "ver = grubV1 \<or> ver = grubV2" and "newline_free (ls1 @ l # ls2)"
    and "step isValid ver basedir (foldl (step isValid ver basedir) initial_state ls1) l =
         foldl (step isValid ver basedir) initial_state ls1"
  shows "ParseGrubCfg isValid ver (Join (ls1 @ l # ls2) ''\<newline>'') basedir =
         ParseGrubCfg isValid ver (Join (ls1 @ ls2) ''\<newline>'') basedir"
  using foldl_step_skip [OF assms(3)]
  by (simp only: ParseGrubCfg_lines [OF assms(1,2)]
      ParseGrubCfg_lines [OF assms(1) newline_free_skip [OF assms(2)]])

lemma newline_free_block:
  "newline_free (pre @ concat blocks) \<Longrightarrow> b \<in> set blocks \<Longrightarrow> newline_free ([] @ concat [b])"
  by (auto simp: newline_free_def list_all_iff)

text \<open>
  C8. For a valid version, a line that is blank or starts with an unknown token can be put
  in or taken out anywhere, and so can a line that is not a \<^verbatim>\<open>menuentry\<close> line before the
  first entry, without changing what \<^verbatim>\<open>ParseGrubCfg\<close> returns. A file of \<open>N\<close> blocks whose
  entries are all valid, after lines outside any entry, gives exactly the \<open>N\<close> entries of
  the blocks, in the order of the blocks; each is the entry that its block gives alone.
\<close>

theorem ParseGrubCfg_ignores_lines:
  assumes "ver = grubV1 \<or> ver = grubV2"
  shows "(newline_free (ls1 @ l # ls2) \<and> ignored l \<longrightarrow>
            ParseGrubCfg isValid ver (Join (ls1 @ l # ls2) ''\<newline>'') basedir =
            ParseGrubCfg isValid ver (Join (ls1 @ ls2) ''\<newline>'') basedir) \<and>
         (newline_free (ls1 @ l # ls2) \<and> list_all (\<lambda>x. \<not> is_menuentry x) (ls1 @ [l]) \<longrightarrow>
            ParseGrubCfg isValid ver (Join (ls1 @ l # ls2) ''\<newline>'') basedir =
            ParseGrubCfg isValid ver (Join (ls1 @ ls2) ''\<newline>'') basedir) \<and>
         (newline_free (pre @ concat blocks) \<and> list_all (\<lambda>x. \<not> is_menuentry x) pre \<and>
          list_all is_block blocks \<and> list_all (\<lambda>b. isValid (entry_of ver basedir b)) blocks \<longrightarrow>
            ParseGrubCfg isValid ver (Join (pre @ concat blocks) ''\<newline>'') basedir =
              Inr ([], map (entry_of ver basedir) blocks) \<and>
            length (entries (ParseGrubCfg isValid ver (Join (pre @ concat blocks) ''\<newline>'') basedir)) =
              length blocks \<and>
            (\<forall>b \<in> set blocks.
               ParseGrubCfg isValid ver (Join b ''\<newline>'') basedir = Inr ([], [entry_of ver basedir b])))"
proof (intro conjI impI; (elim conjE)?)
  assume n: "newline_free (ls1 @ l # ls2)" and i: "ignored l"
  show "ParseGrubCfg isValid ver (Join (ls1 @ l # ls2) ''\<newline>'') basedir =
        ParseGrubCfg isValid ver (Join (ls1 @ ls2) ''\<newline>'') basedir"
    by (rule ParseGrubCfg_skip [OF assms n]) (rule step_ignored [OF wf_foldl [OF wf_initial] i])
next
  assume n: "newline_free (ls1 @ l # ls2)" and o: "list_all (\<lambda>x. \<not> is_menuentry x) (ls1 @ [l])"
  from o have s: "foldl (step isValid ver basedir) initial_state ls1 = initial_state"
    by (intro foldl_step_outside) (simp_all add: initial_state_def)
  from o have "step isValid ver basedir initial_state l = initial_state"
    by (intro step_outside) (simp_all add: initial_state_def)
  with s show "ParseGrubCfg isValid ver (Join (ls1 @ l # ls2) ''\<newline>'') basedir =
        ParseGrubCfg isValid ver (Join (ls1 @ ls2) ''\<newline>'') basedir"
    by (intro ParseGrubCfg_skip [OF assms n]) simp
next
  assume n: "newline_free (pre @ concat blocks)" and p: "list_all (\<lambda>x. \<not> is_menuentry x) pre"
    and b: "list_all is_block blocks" and v: "list_all (\<lambda>b. isValid (entry_of ver basedir b)) blocks"
  from v have f: "filter isValid (map (entry_of ver basedir) blocks) = map (entry_of ver basedir) blocks"
    by (induction blocks) simp_all
  show r: "ParseGrubCfg isValid ver (Join (pre @ concat blocks) ''\<newline>'') basedir =
        Inr ([], map (entry_of ver basedir) blocks)"
    by (simp add: ParseGrubCfg_blocks [OF assms n p b] f)
  show "length (entries (ParseGrubCfg isValid ver (Join (pre @ concat blocks) ''\<newline>'') basedir)) =
        length blocks"
    by (simp add: r entries_def)
  show "\<forall>b \<in> set blocks.
          ParseGrubCfg isValid ver (Join b ''\<newline>'') basedir = Inr ([], [entry_of ver basedir b])"
  proof
    fix x
    assume x: "x \<in> set blocks"
    with b v have "list_all is_block [x]" "isValid (entry_of ver basedir x)"
      by (simp_all add: list_all_iff)
    with ParseGrubCfg_blocks [OF assms newline_free_block [OF n x], of isValid basedir]
    show "ParseGrubCfg isValid ver (Join x ''\<newline>'') basedir = Inr ([], [entry_of ver basedir x])"
      by simp
  qed
qed

theorem ParseGrubCfg_ignores_lines_witness:
  "ParseGrubCfg IsValid grubV2 (Join (c8_pre @ concat c8_blocks) ''\<newline>'') ''/mnt'' =
     Inr ([], [new_BootConfig\<lparr>Name := ''A {'', Kernel := ''/mnt/a'', KernelArgs := ''quiet''\<rparr>,
               new_BootConfig\<lparr>Name := ''B {'', Kernel := ''/mnt/b''\<rparr>]) \<and>
   ParseGrubCfg IsValid grubV2 (Join ([''menuentry A {''] @ [CHR 0x09, CHR 0x20] # [''linux /a'', ''}'']) ''\<newline>'') ''/mnt'' =
   ParseGrubCfg IsValid grubV2 (Join ([''menuentry A {''] @ [''linux /a'', ''}'']) ''\<newline>'') ''/mnt'' \<and>
   ParseGrubCfg IsValid grubV2 (Join ([''menuentry A {'', ''linux /a''] @ ''}'' # [''menuentry B'']) ''\<newline>'') ''/mnt'' =
   ParseGrubCfg IsValid grubV2 (Join ([''menuentry A {'', ''linux /a''] @ [''menuentry B'']) ''\<newline>'') ''/mnt'' \<and>
   ParseGrubCfg IsValid grubV2 (Join ([''set timeout=5''] @ ''linux /outside'' # [''menuentry A {'', ''linux /a'']) ''\<newline>'') ''/mnt'' =
   ParseGrubCfg IsValid grubV2 (Join ([''set timeout=5''] @ [''menuentry A {'', ''linux /a'']) ''\<newline>'') ''/mnt''"
proof -
  have v: "grubV2 = grubV1 \<or> grubV2 = grubV2" by simp
  note t = ParseGrubCfg_ignores_lines [OF v, where isValid = IsValid and basedir = "''/mnt''"]
  have "newline_free (c8_pre @ concat c8_blocks)" "list_all (\<lambda>x. \<not> is_menuentry x) c8_pre"
    "list_all is_block c8_blocks" "list_all (\<lambda>b. IsValid (entry_of grubV2 ''/mnt'' b)) c8_blocks"
    by code_simp+
  moreover have "map (entry_of grubV2 ''/mnt'') c8_blocks =
     [new_BootConfig\<lparr>Name := ''A {'', Kernel := ''/mnt/a'', KernelArgs := ''quiet''\<rparr>,
      new_BootConfig\<lparr>Name := ''B {'', Kernel := ''/mnt/b''\<rparr>]"
    by code_simp
  ultimately have a: "ParseGrubCfg IsValid grubV2 (Join (c8_pre @ concat c8_blocks) ''\<newline>'') ''/mnt'' =
     Inr ([], [new_BootConfig\<lparr>Name := ''A {'', Kernel := ''/mnt/a'', KernelArgs := ''quiet''\<rparr>,
               new_BootConfig\<lparr>Name := ''B {'', Kernel := ''/mnt/b''\<rparr>])"
    using t [THEN conjunct2, THEN conjunct2, of c8_pre c8_blocks] by simp
  have "newline_free ([''menuentry A {''] @ [CHR 0x09, CHR 0x20] # [''linux /a'', ''}''])"
    "ignored [CHR 0x09, CHR 0x20]"
    by code_simp+
  then have b: "ParseGrubCfg IsValid grubV2 (Join ([''menuentry A {''] @ [CHR 0x09, CHR 0x20] # [''linux /a'', ''}'']) ''\<newline>'') ''/mnt'' =
   ParseGrubCfg IsValid grubV2 (Join ([''menuentry A {''] @ [''linux /a'', ''}'']) ''\<newline>'') ''/mnt''"
    using t [THEN conjunct1, of "[''menuentry A {'']" "[CHR 0x09, CHR 0x20]" "[''linux /a'', ''}'']"]
    by blast
  have "newline_free ([''menuentry A {'', ''linux /a''] @ ''}'' # [''menuentry B''])" "ignored ''}''"
    by code_simp+
  then have c: "ParseGrubCfg IsValid grubV2 (Join ([''menuentry A {'', ''linux /a''] @ ''}'' # [''menuentry B'']) ''\<newline>'') ''/mnt'' =
   ParseGrubCfg IsValid grubV2 (Join ([''menuentry A {'', ''linux /a''] @ [''menuentry B'']) ''\<newline>'') ''/mnt''"
    using t [THEN conjunct1, of "[''menuentry A {'', ''linux /a'']" "''}''" "[''menuentry B'']"]
    by blast
  have "newline_free ([''set timeout=5''] @ ''linux /outside'' # [''menuentry A {'', ''linux /a''])"
    "list_all (\<lambda>x. \<not> is_menuentry x) ([''set timeout=5''] @ [''linux /outside''])"
    by code_simp+
  then have d: "ParseGrubCfg IsValid grubV2 (Join ([''set timeout=5''] @ ''linux /outside'' # [''menuentry A {'', ''linux /a'']) ''\<newline>'') ''/mnt'' =
   ParseGrubCfg IsValid grubV2 (Join ([''set timeout=5''] @ [''menuentry A {'', ''linux /a'']) ''\<newline>'') ''/mnt''"
    using t [THEN conjunct2, THEN conjunct1, of "[''set timeout=5'']" "''linux /outside''" "[''menuentry A {'', ''linux /a'']"]
    by blast
  from a b c d show ?thesis
    by (intro conjI)
qed

subsection \<open>Scanning\<close>

lemma ParseGrubCfg_Inr:
  "ver = grubV1 \<or> ver = grubV2 \<Longrightarrow>
   ParseGrubCfg isValid ver grubcfg basedir =
   Inr ([], entries (ParseGrubCfg isValid ver grubcfg basedir))"
  by (simp add: ParseGrubCfg_entries)

lemma scan_paths_eq:
  assumes "ver = grubV1 \<or> ver = grubV2"
  shows "scan_paths isValid readFile ver basedir acc paths =
     Inr (fst acc @ concat (map (candidate_events readFile basedir) paths),
          snd acc @ concat (map (candidate_configs isValid readFile ver basedir) paths))"
proof (induction paths arbitrary: acc)
  case Nil
  show ?case by simp
next
  case (Cons g paths)
  show ?case
  proof (cases "readFile (path_Join [basedir, g])")
    case None
    then have "candidate_events readFile basedir g =
        [TryingToRead (path_Join [basedir, g]), CannotOpen (path_Join [basedir, g])]"
      and "candidate_configs isValid readFile ver basedir g = []"
      by (simp_all add: candidate_events_def candidate_configs_def Let_def)
    with None show ?thesis
      by (simp add: Cons.IH Let_def)
  next
    case (Some grubcfg)
    then have "candidate_events readFile basedir g =
        [TryingToRead (path_Join [basedir, g]), MeasureConfigData grubcfg (path_Join [basedir, g])]"
      and "candidate_configs isValid readFile ver basedir g =
        entries (ParseGrubCfg isValid ver grubcfg basedir)"
      by (simp_all add: candidate_events_def candidate_configs_def Let_def)
    with Some show ?thesis
      by (subst scan_paths.simps, subst ParseGrubCfg_Inr [OF assms]) (simp add: Cons.IH Let_def)
  qed
qed

lemma ScanGrubConfigs_eq:
  "ScanGrubConfigs isValid readFile basedir =
     Inr (concat (map (candidate_events readFile basedir) (Grub2Paths @ GrubLegacyPaths)),
          concat (map (candidate_configs isValid readFile grubV2 basedir) Grub2Paths) @
          concat (map (candidate_configs isValid readFile grubV1 basedir) GrubLegacyPaths))"
  by (simp add: ScanGrubConfigs_def scan_paths_eq)

lemma attempts_append: "attempts (xs @ ys) = attempts xs @ attempts ys"
  by (induction xs rule: attempts.induct) simp_all

lemma attempts_candidates:
  "attempts (concat (map (candidate_events readFile basedir) paths)) =
   map (\<lambda>g. path_Join [basedir, g]) paths"
  by (induction paths)
     (simp_all add: attempts_append candidate_events_def Let_def split: option.splits)

text \<open>
  C6. \<^verbatim>\<open>ScanGrubConfigs\<close> tries the four version 2 paths in their order and then the four
  legacy paths in theirs, whatever was found, each joined with the base directory. A file
  that is read is parsed with the version of its list and the same base directory, and the
  result is the concatenation of the entries of the files in that order.
\<close>

theorem ScanGrubConfigs_order:
  "ScanGrubConfigs isValid readFile basedir =
     Inr (concat (map (candidate_events readFile basedir) (Grub2Paths @ GrubLegacyPaths)),
          concat (map (candidate_configs isValid readFile grubV2 basedir) Grub2Paths) @
          concat (map (candidate_configs isValid readFile grubV1 basedir) GrubLegacyPaths)) \<and>
   attempts (concat (map (candidate_events readFile basedir) (Grub2Paths @ GrubLegacyPaths))) =
     map (\<lambda>g. path_Join [basedir, g])
       [''boot/grub2/grub.cfg'', ''boot/grub2.cfg'', ''grub2/grub.cfg'', ''grub2.cfg'',
        ''boot/grub/grub.cfg'', ''boot/grub.cfg'', ''grub/grub.cfg'', ''grub.cfg'']"
  by (simp only: ScanGrubConfigs_eq attempts_candidates) (simp add: Grub2Paths_def GrubLegacyPaths_def)

theorem ScanGrubConfigs_order_witness:
  "ScanGrubConfigs IsValid only_legacy ''/mnt'' =
     Inr ([TryingToRead ''/mnt/boot/grub2/grub.cfg'', CannotOpen ''/mnt/boot/grub2/grub.cfg'',
           TryingToRead ''/mnt/boot/grub2.cfg'', CannotOpen ''/mnt/boot/grub2.cfg'',
           TryingToRead ''/mnt/grub2/grub.cfg'', CannotOpen ''/mnt/grub2/grub.cfg'',
           TryingToRead ''/mnt/grub2.cfg'', CannotOpen ''/mnt/grub2.cfg'',
           TryingToRead ''/mnt/boot/grub/grub.cfg'', CannotOpen ''/mnt/boot/grub/grub.cfg'',
           TryingToRead ''/mnt/boot/grub.cfg'', CannotOpen ''/mnt/boot/grub.cfg'',
           TryingToRead ''/mnt/grub/grub.cfg'',
           MeasureConfigData ''menuentry A\<newline>linux /a\<newline>menuentry B\<newline>linux /b'' ''/mnt/grub/grub.cfg'',
           TryingToRead ''/mnt/grub.cfg'', CannotOpen ''/mnt/grub.cfg''],
          [new_BootConfig\<lparr>Name := ''A'', Kernel := ''/mnt/a''\<rparr>,
           new_BootConfig\<lparr>Name := ''B'', Kernel := ''/mnt/b''\<rparr>])"
proof -
  have "Inr (concat (map (candidate_events only_legacy ''/mnt'') (Grub2Paths @ GrubLegacyPaths)),
          concat (map (candidate_configs IsValid only_legacy grubV2 ''/mnt'') Grub2Paths) @
          concat (map (candidate_configs IsValid only_legacy grubV1 ''/mnt'') GrubLegacyPaths)) =
     (Inr ([TryingToRead ''/mnt/boot/grub2/grub.cfg'', CannotOpen ''/mnt/boot/grub2/grub.cfg'',
           TryingToRead ''/mnt/boot/grub2.cfg'', CannotOpen ''/mnt/boot/grub2.cfg'',
           TryingToRead ''/mnt/grub2/grub.cfg'', CannotOpen ''/mnt/grub2/grub.cfg'',
           TryingToRead ''/mnt/grub2.cfg'', CannotOpen ''/mnt/grub2.cfg'',
           TryingToRead ''/mnt/boot/grub/grub.cfg'', CannotOpen ''/mnt/boot/grub/grub.cfg'',
           TryingToRead ''/mnt/boot/grub.cfg'', CannotOpen ''/mnt/boot/grub.cfg'',
           TryingToRead ''/mnt/grub/grub.cfg'',
           MeasureConfigData ''menuentry A\<newline>linux /a\<newline>menuentry B\<newline>linux /b'' ''/mnt/grub/grub.cfg'',
           TryingToRead ''/mnt/grub.cfg'', CannotOpen ''/mnt/grub.cfg''],
          [new_BootConfig\<lparr>Name := ''A'', Kernel := ''/mnt/a''\<rparr>,
           new_BootConfig\<lparr>Name := ''B'', Kernel := ''/mnt/b''\<rparr>]) :: panic + (event list \<times> BootConfig list))"
    by code_simp
  with ScanGrubConfigs_order [of IsValid only_legacy "''/mnt''", THEN conjunct1] show ?thesis
    by (rule trans)
qed

text \<open>
  C7. A candidate that cannot be read adds two lines to the log and nothing else, and the
  scan goes on with the next one. The scan never fails. When no candidate can be read, or
  none gives an entry, the result is the empty sequence.
\<close>

theorem ScanGrubConfigs_unreadable:
  "(readFile (path_Join [basedir, g]) = None \<longrightarrow>
      scan_paths isValid readFile ver basedir acc (g # rest) =
      scan_paths isValid readFile ver basedir
        (fst acc @ [TryingToRead (path_Join [basedir, g]), CannotOpen (path_Join [basedir, g])], snd acc)
        rest) \<and>
   (\<exists>r. ScanGrubConfigs isValid readFile basedir = Inr r) \<and>
   ((\<forall>g \<in> set (Grub2Paths @ GrubLegacyPaths). readFile (path_Join [basedir, g]) = None) \<longrightarrow>
      ScanGrubConfigs isValid readFile basedir =
        Inr (concat (map (\<lambda>g. [TryingToRead (path_Join [basedir, g]), CannotOpen (path_Join [basedir, g])])
               (Grub2Paths @ GrubLegacyPaths)), [])) \<and>
   ((\<forall>g \<in> set Grub2Paths. candidate_configs isValid readFile grubV2 basedir g = []) \<and>
    (\<forall>g \<in> set GrubLegacyPaths. candidate_configs isValid readFile grubV1 basedir g = []) \<longrightarrow>
      entries (ScanGrubConfigs isValid readFile basedir) = [])"
proof (intro conjI impI)
  assume "readFile (path_Join [basedir, g]) = None"
  then show "scan_paths isValid readFile ver basedir acc (g # rest) =
      scan_paths isValid readFile ver basedir
        (fst acc @ [TryingToRead (path_Join [basedir, g]), CannotOpen (path_Join [basedir, g])], snd acc)
        rest"
    by (simp add: Let_def)
next
  show "\<exists>r. ScanGrubConfigs isValid readFile basedir = Inr r"
    by (simp add: ScanGrubConfigs_eq)
next
  assume a: "\<forall>g \<in> set (Grub2Paths @ GrubLegacyPaths). readFile (path_Join [basedir, g]) = None"
  have e: "map (candidate_events readFile basedir) paths =
           map (\<lambda>g. [TryingToRead (path_Join [basedir, g]), CannotOpen (path_Join [basedir, g])]) paths"
    and c: "concat (map (candidate_configs isValid readFile v basedir) paths) = []"
    if "\<forall>g \<in> set paths. readFile (path_Join [basedir, g]) = None" for paths v
    using that by (induction paths) (simp_all add: candidate_events_def candidate_configs_def Let_def)
  from a show "ScanGrubConfigs isValid readFile basedir =
        Inr (concat (map (\<lambda>g. [TryingToRead (path_Join [basedir, g]), CannotOpen (path_Join [basedir, g])])
               (Grub2Paths @ GrubLegacyPaths)), [])"
    by (simp only: ScanGrubConfigs_eq e [OF a]) (simp add: c)
next
  assume "(\<forall>g \<in> set Grub2Paths. candidate_configs isValid readFile grubV2 basedir g = []) \<and>
    (\<forall>g \<in> set GrubLegacyPaths. candidate_configs isValid readFile grubV1 basedir g = [])"
  then show "entries (ScanGrubConfigs isValid readFile basedir) = []"
    by (simp add: ScanGrubConfigs_eq entries_def)
qed

theorem ScanGrubConfigs_unreadable_witness:
  "ScanGrubConfigs IsValid (\<lambda>path. None) ''/mnt'' =
     Inr ([TryingToRead ''/mnt/boot/grub2/grub.cfg'', CannotOpen ''/mnt/boot/grub2/grub.cfg'',
           TryingToRead ''/mnt/boot/grub2.cfg'', CannotOpen ''/mnt/boot/grub2.cfg'',
           TryingToRead ''/mnt/grub2/grub.cfg'', CannotOpen ''/mnt/grub2/grub.cfg'',
           TryingToRead ''/mnt/grub2.cfg'', CannotOpen ''/mnt/grub2.cfg'',
           TryingToRead ''/mnt/boot/grub/grub.cfg'', CannotOpen ''/mnt/boot/grub/grub.cfg'',
           TryingToRead ''/mnt/boot/grub.cfg'', CannotOpen ''/mnt/boot/grub.cfg'',
           TryingToRead ''/mnt/grub/grub.cfg'', CannotOpen ''/mnt/grub/grub.cfg'',
           TryingToRead ''/mnt/grub.cfg'', CannotOpen ''/mnt/grub.cfg''], []) \<and>
   entries (ScanGrubConfigs IsValid only_header ''/mnt'') = []"
proof -
  have "concat (map (\<lambda>g. [TryingToRead (path_Join [''/mnt'', g]), CannotOpen (path_Join [''/mnt'', g])])
               (Grub2Paths @ GrubLegacyPaths)) =
          [TryingToRead ''/mnt/boot/grub2/grub.cfg'', CannotOpen ''/mnt/boot/grub2/grub.cfg'',
           TryingToRead ''/mnt/boot/grub2.cfg'', CannotOpen ''/mnt/boot/grub2.cfg'',
           TryingToRead ''/mnt/grub2/grub.cfg'', CannotOpen ''/mnt/grub2/grub.cfg'',
           TryingToRead ''/mnt/grub2.cfg'', CannotOpen ''/mnt/grub2.cfg'',
           TryingToRead ''/mnt/boot/grub/grub.cfg'', CannotOpen ''/mnt/boot/grub/grub.cfg'',
           TryingToRead ''/mnt/boot/grub.cfg'', CannotOpen ''/mnt/boot/grub.cfg'',
           TryingToRead ''/mnt/grub/grub.cfg'', CannotOpen ''/mnt/grub/grub.cfg'',
           TryingToRead ''/mnt/grub.cfg'', CannotOpen ''/mnt/grub.cfg'']"
    by code_simp
  then have a: "ScanGrubConfigs IsValid (\<lambda>path. None) ''/mnt'' =
     Inr ([TryingToRead ''/mnt/boot/grub2/grub.cfg'', CannotOpen ''/mnt/boot/grub2/grub.cfg'',
           TryingToRead ''/mnt/boot/grub2.cfg'', CannotOpen ''/mnt/boot/grub2.cfg'',
           TryingToRead ''/mnt/grub2/grub.cfg'', CannotOpen ''/mnt/grub2/grub.cfg'',
           TryingToRead ''/mnt/grub2.cfg'', CannotOpen ''/mnt/grub2.cfg'',
           TryingToRead ''/mnt/boot/grub/grub.cfg'', CannotOpen ''/mnt/boot/grub/grub.cfg'',
           TryingToRead ''/mnt/boot/grub.cfg'', CannotOpen ''/mnt/boot/grub.cfg'',
           TryingToRead ''/mnt/grub/grub.cfg'', CannotOpen ''/mnt/grub/grub.cfg'',
           TryingToRead ''/mnt/grub.cfg'', CannotOpen ''/mnt/grub.cfg''], [])"
    using ScanGrubConfigs_unreadable [of "\<lambda>path. None" "''/mnt''" "[]" IsValid grubV2 "([], [])" "[]",
        THEN conjunct2, THEN conjunct2, THEN conjunct1]
    by simp
  have "\<forall>g \<in> set Grub2Paths. candidate_configs IsValid only_header grubV2 ''/mnt'' g = []"
    "\<forall>g \<in> set GrubLegacyPaths. candidate_configs IsValid only_header grubV1 ''/mnt'' g = []"
    by code_simp+
  then have "entries (ScanGrubConfigs IsValid only_header ''/mnt'') = []"
    using ScanGrubConfigs_unreadable [of only_header "''/mnt''" "[]" IsValid grubV2 "([], [])" "[]",
        THEN conjunct2, THEN conjunct2, THEN conjunct2]
    by blast
  with a show ?thesis
    by (rule conjI)
qed

end
